theory Spec2Isabelle
  imports Main
begin

section \<open>The task store and reminder scheduler of bot.py\<close>

text \<open>
  A shallow embedding of the class \<open>TaskManager\<close> and of the coroutine
  \<open>send_reminders_sync\<close> of \<^verbatim>\<open>src/to do tele bot/bot.py\<close>.
  Python mutates the list \<open>self.tasks\<close> and the dictionaries in it in place; the
  model passes the state explicitly and returns it updated. Everything outside the
  program (the clock, the file system, the Telegram connection and the parsing functions
  of the standard library) is a parameter of the model.
\<close>

subsection \<open>Dates and times\<close>

text \<open>
  Python's naive \<open>date\<close>, \<open>time\<close> and \<open>datetime\<close> values. A \<open>datetime\<close> is
  a date together with a time of day: \<open>datetime.combine\<close> builds one and \<open>.date()\<close>
  reads the date back. Naive datetimes compare component by component, from the year down
  to the microsecond.
\<close>

record date =
  year :: nat
  month :: nat
  day :: nat

record time =
  hour :: nat
  minute :: nat
  second :: nat
  microsecond :: nat

type_synonym datetime = "date \<times> time"

definition combine :: "date \<Rightarrow> time \<Rightarrow> datetime" where
  "combine d t = (d, t)"

definition date_of :: "datetime \<Rightarrow> date" where
  "date_of dt = fst dt"

definition datetime_key :: "datetime \<Rightarrow> nat list" where
  "datetime_key dt =
     [year (fst dt), month (fst dt), day (fst dt),
      hour (snd dt), minute (snd dt), second (snd dt), microsecond (snd dt)]"

fun lex_le :: "nat list \<Rightarrow> nat list \<Rightarrow> bool" where
  "lex_le [] ys = True"
| "lex_le (x # xs) [] = False"
| "lex_le (x # xs) (y # ys) = (x < y \<or> (x = y \<and> lex_le xs ys))"

text \<open>\<open>datetime_ge a b\<close> is the Python comparison \<open>a >= b\<close>.\<close>

definition datetime_ge :: "datetime \<Rightarrow> datetime \<Rightarrow> bool" where
  "datetime_ge a b = lex_le (datetime_key b) (datetime_key a)"

subsection \<open>The standard library and the environment\<close>

datatype exn = ValueError | OSError | TelegramError

text \<open>
  The four functions of the module \<open>datetime\<close> that the program calls on strings.
  \<open>None\<close> stands for the \<open>ValueError\<close> that the Python function raises:
  \<^item> \<open>strptime_date s\<close> is \<open>datetime.strptime(s, '%d.%m.%Y').date()\<close>;
  \<^item> \<open>strptime_time s\<close> is \<open>datetime.strptime(s, '%H:%M').time()\<close>;
  \<^item> \<open>fromisoformat s\<close> is \<open>datetime.fromisoformat(s)\<close>;
  \<^item> \<open>isoformat dt\<close> is \<open>dt.isoformat()\<close>.
\<close>

record pylib =
  strptime_date :: "string \<Rightarrow> date option"
  strptime_time :: "string \<Rightarrow> time option"
  fromisoformat :: "string \<Rightarrow> datetime option"
  isoformat :: "datetime \<Rightarrow> string"

text \<open>
  The text of a reminder is an f-string over five entries of the task (the emoji is
  looked up from the priority): the message is modelled by the values interpolated into it.
\<close>

record reminder =
  r_priority :: string
  r_id :: int
  r_text :: string
  r_date :: string
  r_time :: string

subsection \<open>Tasks\<close>

text \<open>
  A task is a dictionary with nine fixed keys; \<open>task_id\<close> is the entry \<open>'id'\<close> and
  \<open>task_text\<close> the entry \<open>'text'\<close>. An entry that is \<open>None\<close> in Python (\<open>null\<close>
  in the file) is \<open>None\<close> here.
\<close>

record task =
  task_id :: int
  task_text :: string
  user_id :: int
  priority :: string
  completed :: bool
  created_at :: string
  completed_at :: "string option"
  scheduled_date :: "string option"
  scheduled_time :: "string option"

text \<open>
  Python's truth value of \<open>task.get('scheduled_date')\<close>: \<open>None\<close> and the empty
  string are false, every other string is true.
\<close>

fun truthy :: "string option \<Rightarrow> bool" where
  "truthy None = False"
| "truthy (Some s) = (s \<noteq> [])"

text \<open>
  The outside world \<open>'w\<close> holds the file \<open>tasks.json\<close> and the Telegram chat.
  \<open>write_json w ts\<close> is the body of the \<open>try\<close> in \<open>save_tasks\<close> (opening the
  file for writing and \<open>json.dump\<close>), \<open>send_message w chat_id msg\<close> is
  \<open>await app_instance.bot.send_message(...)\<close>. Each returns the exception it raised,
  if any, and the world it leaves behind.
\<close>

record 'w env =
  write_json :: "'w \<Rightarrow> task list \<Rightarrow> exn option \<times> 'w"
  send_message :: "'w \<Rightarrow> int \<Rightarrow> reminder \<Rightarrow> exn option \<times> 'w"

text \<open>
  The records written by \<open>logger.error\<close>: a failed save, a task whose check in the
  scheduler raised \<open>ValueError\<close> (with the task's id), and a scheduler run that ended
  with an exception.
\<close>

datatype log_record = SaveError exn | CheckError int | TickError exn

text \<open>
  The state of the process: the list \<open>task_manager.tasks\<close>, the outside world, and
  the error records logged so far.
\<close>

record 'w state =
  tasks :: "task list"
  world :: 'w
  errors :: "log_record list"

subsection \<open>TaskManager\<close>

text \<open>\<open>save_tasks\<close>: any exception of the write is caught and logged.\<close>

definition save_tasks :: "'w env \<Rightarrow> 'w state \<Rightarrow> 'w state" where
  "save_tasks E s =
     (case write_json E (world s) (tasks s) of
        (None, w') \<Rightarrow> s\<lparr>world := w'\<rparr>
      | (Some e, w') \<Rightarrow> s\<lparr>world := w', errors := errors s @ [SaveError e]\<rparr>)"

text \<open>\<open>add_task\<close>; \<open>now\<close> is the value of \<open>datetime.now()\<close> at the call.\<close>

definition new_task ::
  "pylib \<Rightarrow> datetime \<Rightarrow> int \<Rightarrow> string \<Rightarrow> int \<Rightarrow> string \<Rightarrow> string option \<Rightarrow> string option \<Rightarrow> task"
where
  "new_task L now n text uid prio sdate stime =
     \<lparr>task_id = n, task_text = text, user_id = uid, priority = prio, completed = False,
      created_at = isoformat L now, completed_at = None,
      scheduled_date = sdate, scheduled_time = stime\<rparr>"

definition add_task ::
  "'w env \<Rightarrow> pylib \<Rightarrow> datetime \<Rightarrow> string \<Rightarrow> int \<Rightarrow> string \<Rightarrow> string option \<Rightarrow> string option
     \<Rightarrow> 'w state \<Rightarrow> int \<times> 'w state"
where
  "add_task E L now text uid prio sdate stime s =
     (let n = int (length (tasks s)) + 1;
          t = new_task L now n text uid prio sdate stime;
          s1 = s\<lparr>tasks := tasks s @ [t]\<rparr>
      in (n, save_tasks E s1))"

text \<open>\<open>get_user_tasks\<close>, with the filter \<open>completed\<close> that may be \<open>None\<close>.\<close>

definition get_user_tasks :: "task list \<Rightarrow> int \<Rightarrow> bool option \<Rightarrow> task list" where
  "get_user_tasks ts uid flt =
     (case flt of
        None \<Rightarrow> filter (\<lambda>t. user_id t = uid) ts
      | Some c \<Rightarrow> filter (\<lambda>t. user_id t = uid \<and> completed t = c) ts)"

text \<open>
  \<open>mark_task_done\<close>: the loop stops at the first task with the given id and owner,
  marks it, saves and returns \<open>True\<close>; \<open>mark_loop\<close> returns the updated list, or
  \<open>None\<close> when the loop ran to its end.
\<close>

fun mark_loop :: "string \<Rightarrow> int \<Rightarrow> int \<Rightarrow> task list \<Rightarrow> task list option" where
  "mark_loop stamp uid tid [] = None"
| "mark_loop stamp uid tid (t # ts) =
     (if task_id t = tid \<and> user_id t = uid
      then Some (t\<lparr>completed := True, completed_at := Some stamp\<rparr> # ts)
      else map_option ((#) t) (mark_loop stamp uid tid ts))"

definition mark_task_done ::
  "'w env \<Rightarrow> pylib \<Rightarrow> datetime \<Rightarrow> int \<Rightarrow> int \<Rightarrow> 'w state \<Rightarrow> bool \<times> 'w state"
where
  "mark_task_done E L now uid tid s =
     (case mark_loop (isoformat L now) uid tid (tasks s) of
        None \<Rightarrow> (False, s)
      | Some ts' \<Rightarrow> (True, save_tasks E (s\<lparr>tasks := ts'\<rparr>)))"

text \<open>
  \<open>get_today_tasks\<close>: \<open>today_loop\<close> is the \<open>for\<close> loop, with the list
  \<open>today_tasks\<close> built so far as its last argument. \<open>fromisoformat\<close> is called outside
  any \<open>try\<close>, so its \<open>ValueError\<close> ends the call; the one of \<open>strptime\<close> is caught
  and the loop goes on.
\<close>

fun today_loop :: "pylib \<Rightarrow> date \<Rightarrow> int \<Rightarrow> task list \<Rightarrow> task list \<Rightarrow> exn + task list" where
  "today_loop L today uid [] acc = Inr acc"
| "today_loop L today uid (t # ts) acc =
     (if user_id t = uid \<and> completed t = False then
        (case fromisoformat L (created_at t) of
           None \<Rightarrow> Inl ValueError
         | Some created \<Rightarrow>
             if date_of created = today then today_loop L today uid ts (acc @ [t])
             else if truthy (scheduled_date t) then
               (case scheduled_date t of
                  None \<Rightarrow> today_loop L today uid ts acc
                | Some ds \<Rightarrow>
                    (case strptime_date L ds of
                       None \<Rightarrow> today_loop L today uid ts acc
                     | Some d \<Rightarrow>
                         if d = today then today_loop L today uid ts (acc @ [t])
                         else today_loop L today uid ts acc))
             else today_loop L today uid ts acc)
      else today_loop L today uid ts acc)"

definition get_today_tasks :: "pylib \<Rightarrow> datetime \<Rightarrow> task list \<Rightarrow> int \<Rightarrow> exn + task list" where
  "get_today_tasks L now ts uid = today_loop L (date_of now) uid ts []"

text \<open>
  \<open>get_scheduled_tasks\<close> returns references to the dictionaries of \<open>self.tasks\<close>:
  the scheduler later assigns to their entries. \<open>scheduled_indices\<close> gives the positions
  of the tasks it returns, \<open>get_scheduled_tasks\<close> their values.
\<close>

definition is_scheduled :: "task \<Rightarrow> bool" where
  "is_scheduled t = (\<not> completed t \<and> truthy (scheduled_date t) \<and> truthy (scheduled_time t))"

definition scheduled_indices :: "task list \<Rightarrow> nat list" where
  "scheduled_indices ts = filter (\<lambda>i. is_scheduled (ts ! i)) [0..<length ts]"

definition get_scheduled_tasks :: "task list \<Rightarrow> task list" where
  "get_scheduled_tasks ts = map ((!) ts) (scheduled_indices ts)"

subsection \<open>The scheduler\<close>

definition render :: "task \<Rightarrow> string \<Rightarrow> string \<Rightarrow> reminder" where
  "render t ds tm =
     \<lparr>r_priority = priority t, r_id = task_id t, r_text = task_text t, r_date = ds, r_time = tm\<rparr>"

definition clear_schedule :: "task \<Rightarrow> task" where
  "clear_schedule t = t\<lparr>scheduled_date := None, scheduled_time := None\<rparr>"

text \<open>
  The body of the \<open>for\<close> loop of \<open>send_reminders_sync\<close>, for the task at position
  \<open>i\<close> of \<open>task_manager.tasks\<close>. It ends in one of three ways: the loop goes on and no
  reminder was delivered (\<open>Next\<close>), the loop goes on after \<open>send_message\<close> returned and
  the schedule was cleared and saved (\<open>Sent\<close>), or an exception leaves the loop
  (\<open>Raised\<close>). The handler is \<open>except ValueError\<close>: it catches the errors of both
  \<open>strptime\<close> calls, and a \<open>ValueError\<close> of \<open>send_message\<close>; every other
  exception of \<open>send_message\<close> passes through it.
\<close>

datatype step = Next | Sent | Raised exn

definition remind_task :: "'w env \<Rightarrow> pylib \<Rightarrow> datetime \<Rightarrow> nat \<Rightarrow> 'w state \<Rightarrow> step \<times> 'w state" where
  "remind_task E L now i s =
     (let t = tasks s ! i in
      if truthy (scheduled_date t) \<and> truthy (scheduled_time t) then
        (case (scheduled_date t, scheduled_time t) of
           (Some ds, Some tm) \<Rightarrow>
             (case strptime_date L ds of
                None \<Rightarrow> (Next, s\<lparr>errors := errors s @ [CheckError (task_id t)]\<rparr>)
              | Some d \<Rightarrow>
                  (case strptime_time L tm of
                     None \<Rightarrow> (Next, s\<lparr>errors := errors s @ [CheckError (task_id t)]\<rparr>)
                   | Some tt \<Rightarrow>
                       if datetime_ge now (combine d tt) then
                         (case send_message E (world s) (user_id t) (render t ds tm) of
                            (None, w') \<Rightarrow>
                              (Sent, save_tasks E
                                 (s\<lparr>world := w', tasks := (tasks s)[i := clear_schedule t]\<rparr>))
                          | (Some e, w') \<Rightarrow>
                              if e = ValueError
                              then (Next, s\<lparr>world := w',
                                            errors := errors s @ [CheckError (task_id t)]\<rparr>)
                              else (Raised e, s\<lparr>world := w'\<rparr>))
                       else (Next, s)))
         | _ \<Rightarrow> (Next, s))
      else (Next, s))"

text \<open>
  The loop over the tasks that \<open>get_scheduled_tasks\<close> returned, given by their
  positions. It returns the exception that left it, if any, the positions of the tasks
  whose reminder was delivered, in order, and the state.
\<close>

fun reminders_loop ::
  "'w env \<Rightarrow> pylib \<Rightarrow> datetime \<Rightarrow> nat list \<Rightarrow> 'w state \<Rightarrow> exn option \<times> nat list \<times> 'w state"
where
  "reminders_loop E L now [] s = (None, [], s)"
| "reminders_loop E L now (i # is) s =
     (case remind_task E L now i s of
        (Raised e, s') \<Rightarrow> (Some e, [], s')
      | (Sent, s') \<Rightarrow>
          (case reminders_loop E L now is s' of (r, sent, s'') \<Rightarrow> (r, i # sent, s''))
      | (Next, s') \<Rightarrow> reminders_loop E L now is s')"

text \<open>
  \<open>send_reminders_sync\<close>: \<open>app_instance\<close> says whether the global of that name is
  set, \<open>now\<close> is the one value of \<open>datetime.now()\<close> read before the loop. (The
  function \<open>send_reminders\<close> of the source has the same body.)
\<close>

definition send_reminders_sync ::
  "'w env \<Rightarrow> pylib \<Rightarrow> bool \<Rightarrow> datetime \<Rightarrow> 'w state \<Rightarrow> exn option \<times> nat list \<times> 'w state"
where
  "send_reminders_sync E L app_instance now s =
     (if \<not> app_instance then (None, [], s)
      else reminders_loop E L now (scheduled_indices (tasks s)) s)"

text \<open>
  One run of \<open>run_check\<close>, the timer's callback in \<open>check_reminders_periodically\<close>:
  an exception of the coroutine is caught and logged, and the next run is scheduled in
  any case. Time is not modelled: neither the delays of 10 and 60 seconds between runs nor
  the limit of 10 seconds on the wait for the coroutine's result.
\<close>

definition run_check ::
  "'w env \<Rightarrow> pylib \<Rightarrow> bool \<Rightarrow> datetime \<Rightarrow> 'w state \<Rightarrow> nat list \<times> 'w state"
where
  "run_check E L app_instance now s =
     (if \<not> app_instance then ([], s)
      else
        (case send_reminders_sync E L app_instance now s of
           (None, sent, s') \<Rightarrow> (sent, s')
         | (Some e, sent, s') \<Rightarrow> (sent, s'\<lparr>errors := errors s' @ [TickError e]\<rparr>)))"

subsection \<open>Runs of the process\<close>

text \<open>
  A run is a sequence of calls on the one \<open>task_manager\<close>: an \<open>add_task\<close>, a
  \<open>mark_task_done\<close> or a run of the scheduler, each with the clock's value at the call.
  \<open>run\<close> returns what each call returned.
\<close>

datatype op =
  Create datetime string int string "string option" "string option"
| Complete datetime int int
| Tick datetime

datatype event = Created int | Completed bool | Ticked "nat list"

fun run :: "'w env \<Rightarrow> pylib \<Rightarrow> op list \<Rightarrow> 'w state \<Rightarrow> event list \<times> 'w state" where
  "run E L [] s = ([], s)"
| "run E L (Create now text uid prio sdate stime # ops) s =
     (case add_task E L now text uid prio sdate stime s of
        (n, s') \<Rightarrow> (case run E L ops s' of (evs, s'') \<Rightarrow> (Created n # evs, s'')))"
| "run E L (Complete now uid tid # ops) s =
     (case mark_task_done E L now uid tid s of
        (b, s') \<Rightarrow> (case run E L ops s' of (evs, s'') \<Rightarrow> (Completed b # evs, s'')))"
| "run E L (Tick now # ops) s =
     (case run_check E L True now s of
        (sent, s') \<Rightarrow> (case run E L ops s' of (evs, s'') \<Rightarrow> (Ticked sent # evs, s'')))"

text \<open>The ids that the \<open>add_task\<close> calls of a run returned, in order.\<close>

fun issued_ids :: "event list \<Rightarrow> int list" where
  "issued_ids [] = []"
| "issued_ids (Created n # evs) = n # issued_ids evs"
| "issued_ids (_ # evs) = issued_ids evs"

text \<open>The positions for which the scheduler runs of a run delivered a reminder.\<close>

fun reminded :: "event list \<Rightarrow> nat list" where
  "reminded [] = []"
| "reminded (Ticked sent # evs) = sent @ reminded evs"
| "reminded (_ # evs) = reminded evs"

subsection \<open>Notions of the specification\<close>

text \<open>
  The due instant of a task: its two schedule entries, parsed and combined; \<open>None\<close>
  when an entry is missing or does not parse. A task is due at \<open>now\<close> when it has a due
  instant and \<open>now\<close> is at or after it.
\<close>

definition due_instant :: "pylib \<Rightarrow> task \<Rightarrow> datetime option" where
  "due_instant L t =
     (case (scheduled_date t, scheduled_time t) of
        (Some ds, Some tm) \<Rightarrow>
          (case (strptime_date L ds, strptime_time L tm) of
             (Some d, Some tt) \<Rightarrow> Some (combine d tt)
           | _ \<Rightarrow> None)
      | _ \<Rightarrow> None)"

definition is_due :: "pylib \<Rightarrow> datetime \<Rightarrow> task \<Rightarrow> bool" where
  "is_due L now t = (case due_instant L t of None \<Rightarrow> False | Some due \<Rightarrow> datetime_ge now due)"

text \<open>
  The tasks that \<open>TasksDueToday(owner)\<close> is to return, in the words of the
  specification: uncompleted, of that owner, and created today or scheduled for today.
\<close>

definition created_on :: "pylib \<Rightarrow> date \<Rightarrow> task \<Rightarrow> bool" where
  "created_on L today t =
     (case fromisoformat L (created_at t) of None \<Rightarrow> False | Some c \<Rightarrow> date_of c = today)"

definition scheduled_on :: "pylib \<Rightarrow> date \<Rightarrow> task \<Rightarrow> bool" where
  "scheduled_on L today t =
     (case scheduled_date t of None \<Rightarrow> False | Some ds \<Rightarrow> strptime_date L ds = Some today)"

definition due_today :: "pylib \<Rightarrow> date \<Rightarrow> int \<Rightarrow> task \<Rightarrow> bool" where
  "due_today L today uid t =
     (user_id t = uid \<and> \<not> completed t \<and> (created_on L today t \<or> scheduled_on L today t))"

text \<open>
  The ids of a store that only \<open>add_task\<close> has filled: the task at position \<open>k\<close>
  (counted from 0) has the id \<open>k + 1\<close>.
\<close>

definition ids_by_position :: "task list \<Rightarrow> bool" where
  "ids_by_position ts = (map task_id ts = map (\<lambda>k. int k + 1) [0..<length ts])"

text \<open>
  What identifies a stored task towards its owner: the id, the text, the owner, the
  priority and the creation time. \<open>same_identity t t'\<close> says that \<open>t'\<close> has these five
  entries of \<open>t\<close>.
\<close>

definition same_identity :: "task \<Rightarrow> task \<Rightarrow> bool" where
  "same_identity t t' =
     (task_id t' = task_id t \<and> task_text t' = task_text t \<and> user_id t' = user_id t \<and>
      priority t' = priority t \<and> created_at t' = created_at t)"

subsection \<open>A library and a world for the examples\<close>

text \<open>
  The theorems below hold for every library and every world. Their examples run on the
  following ones. The parsers read ASCII digits: one or two for a day, a month, an hour
  and a minute, four for a year, with the calendar's ranges checked; \<open>ex_isoformat\<close>
  writes \<open>YYYY-MM-DDTHH:MM:SS\<close>, followed by the microseconds when they are not zero,
  and \<open>ex_fromisoformat\<close> reads these two forms. On the strings of the examples they
  return what the functions of Python's \<open>datetime\<close> return.
\<close>

definition digit :: "char \<Rightarrow> nat option" where
  "digit c = (let n = of_char c in if 48 \<le> n \<and> n \<le> 57 then Some (n - 48) else None)"

fun number_acc :: "nat \<Rightarrow> string \<Rightarrow> nat option" where
  "number_acc n [] = Some n"
| "number_acc n (c # cs) =
     (case digit c of None \<Rightarrow> None | Some d \<Rightarrow> number_acc (10 * n + d) cs)"

definition number :: "string \<Rightarrow> nat option" where
  "number s = (if s = [] then None else number_acc 0 s)"

fun split_at :: "char \<Rightarrow> string \<Rightarrow> string list" where
  "split_at sep [] = [[]]"
| "split_at sep (c # cs) =
     (case split_at sep cs of
        [] \<Rightarrow> [[c]]
      | w # ws \<Rightarrow> if c = sep then [] # w # ws else (c # w) # ws)"

definition leap_year :: "nat \<Rightarrow> bool" where
  "leap_year y = (y mod 4 = 0 \<and> (y mod 100 \<noteq> 0 \<or> y mod 400 = 0))"

definition days_in_month :: "nat \<Rightarrow> nat \<Rightarrow> nat" where
  "days_in_month y m =
     (if m = 2 then (if leap_year y then 29 else 28)
      else if m = 4 \<or> m = 6 \<or> m = 9 \<or> m = 11 then 30 else 31)"

definition valid_date :: "nat \<Rightarrow> nat \<Rightarrow> nat \<Rightarrow> bool" where
  "valid_date y m d = (1 \<le> y \<and> 1 \<le> m \<and> m \<le> 12 \<and> 1 \<le> d \<and> d \<le> days_in_month y m)"

definition ex_strptime_date :: "string \<Rightarrow> date option" where
  "ex_strptime_date s =
     (case split_at (CHR ''.'') s of
        [ds, ms, ys] \<Rightarrow>
          (if length ds \<le> 2 \<and> length ms \<le> 2 \<and> length ys = 4 then
             (case (number ds, number ms, number ys) of
                (Some d, Some m, Some y) \<Rightarrow>
                  if valid_date y m d then Some \<lparr>year = y, month = m, day = d\<rparr> else None
              | _ \<Rightarrow> None)
           else None)
      | _ \<Rightarrow> None)"

definition ex_strptime_time :: "string \<Rightarrow> time option" where
  "ex_strptime_time s =
     (case split_at (CHR '':'') s of
        [hs, ms] \<Rightarrow>
          (if length hs \<le> 2 \<and> length ms \<le> 2 then
             (case (number hs, number ms) of
                (Some h, Some m) \<Rightarrow>
                  if h \<le> 23 \<and> m \<le> 59
                  then Some \<lparr>hour = h, minute = m, second = 0, microsecond = 0\<rparr> else None
              | _ \<Rightarrow> None)
           else None)
      | _ \<Rightarrow> None)"

fun pad :: "nat \<Rightarrow> nat \<Rightarrow> string" where
  "pad 0 n = []"
| "pad (Suc w) n = pad w (n div 10) @ [char_of (48 + n mod 10)]"

definition ex_isoformat :: "datetime \<Rightarrow> string" where
  "ex_isoformat dt =
     pad 4 (year (fst dt)) @ ''-'' @ pad 2 (month (fst dt)) @ ''-'' @ pad 2 (day (fst dt)) @
     ''T'' @ pad 2 (hour (snd dt)) @ '':'' @ pad 2 (minute (snd dt)) @ '':'' @
     pad 2 (second (snd dt)) @
     (if microsecond (snd dt) = 0 then [] else ''.'' @ pad 6 (microsecond (snd dt)))"

definition ex_fromisoformat :: "string \<Rightarrow> datetime option" where
  "ex_fromisoformat s =
     (if (length s = 19 \<or> length s = 26 \<and> s ! 19 = CHR ''.'') \<and>
         s ! 4 = CHR ''-'' \<and> s ! 7 = CHR ''-'' \<and> s ! 10 = CHR ''T'' \<and>
         s ! 13 = CHR '':'' \<and> s ! 16 = CHR '':''
      then
        (case (number (take 4 s), number (take 2 (drop 5 s)), number (take 2 (drop 8 s)),
               number (take 2 (drop 11 s)), number (take 2 (drop 14 s)),
               number (take 2 (drop 17 s)),
               if length s = 19 then Some 0 else number (drop 20 s)) of
           (Some y, Some mo, Some d, Some h, Some mi, Some se, Some us) \<Rightarrow>
             if valid_date y mo d \<and> h \<le> 23 \<and> mi \<le> 59 \<and> se \<le> 59
             then Some (\<lparr>year = y, month = mo, day = d\<rparr>,
                        \<lparr>hour = h, minute = mi, second = se, microsecond = us\<rparr>)
             else None
         | _ \<Rightarrow> None)
      else None)"

definition ex_lib :: pylib where
  "ex_lib = \<lparr>strptime_date = ex_strptime_date, strptime_time = ex_strptime_time,
             fromisoformat = ex_fromisoformat, isoformat = ex_isoformat\<rparr>"

text \<open>
  The example world: the content of the file and the messages delivered so far. In
  \<open>ex_env\<close> every write and every message succeeds; in \<open>ex_env_disk_full\<close> every
  write raises \<open>OSError\<close> and leaves the file as it is; in \<open>ex_env_blocked c\<close>
  every message to the chat \<open>c\<close> raises \<open>TelegramError\<close>.
\<close>

record ex_world =
  disk :: "task list"
  outbox :: "(int \<times> reminder) list"

definition ex_write :: "ex_world \<Rightarrow> task list \<Rightarrow> exn option \<times> ex_world" where
  "ex_write w ts = (None, w\<lparr>disk := ts\<rparr>)"

definition ex_send :: "ex_world \<Rightarrow> int \<Rightarrow> reminder \<Rightarrow> exn option \<times> ex_world" where
  "ex_send w chat msg = (None, w\<lparr>outbox := outbox w @ [(chat, msg)]\<rparr>)"

definition ex_env :: "ex_world env" where
  "ex_env = \<lparr>write_json = ex_write, send_message = ex_send\<rparr>"


definition ex_env_blocked :: "int \<Rightarrow> ex_world env" where
  "ex_env_blocked c =
     \<lparr>write_json = ex_write,
      send_message = (\<lambda>w chat msg. if chat = c then (Some TelegramError, w) else ex_send w chat msg)\<rparr>"

definition ex_start :: "ex_world state" where
  "ex_start = \<lparr>tasks = [], world = \<lparr>disk = [], outbox = []\<rparr>, errors = []\<rparr>"

definition ex_store :: "task list \<Rightarrow> ex_world state" where
  "ex_store ts = \<lparr>tasks = ts, world = \<lparr>disk = ts, outbox = []\<rparr>, errors = []\<rparr>"

definition mk_date :: "nat \<Rightarrow> nat \<Rightarrow> nat \<Rightarrow> date" where
  "mk_date y m d = \<lparr>year = y, month = m, day = d\<rparr>"

definition mk_datetime :: "nat \<Rightarrow> nat \<Rightarrow> nat \<Rightarrow> nat \<Rightarrow> nat \<Rightarrow> nat \<Rightarrow> datetime" where
  "mk_datetime y m d h mi se =
     (\<lparr>year = y, month = m, day = d\<rparr>, \<lparr>hour = h, minute = mi, second = se, microsecond = 0\<rparr>)"

text \<open>The default priority of \<open>add_task\<close>, the word for "medium", as UTF-8 bytes.\<close>

definition default_priority :: string where
  "default_priority =
     [CHR 0xD1, CHR 0x81, CHR 0xD1, CHR 0x80, CHR 0xD0, CHR 0xB5, CHR 0xD0, CHR 0xB4,
      CHR 0xD0, CHR 0xBD, CHR 0xD0, CHR 0xB8, CHR 0xD0, CHR 0xB9]"

text \<open>A stored, uncompleted task of the examples, as \<open>add_task\<close> builds it.\<close>

definition ex_task :: "int \<Rightarrow> int \<Rightarrow> string \<Rightarrow> string option \<Rightarrow> string option \<Rightarrow> task" where
  "ex_task n uid created sdate stime =
     \<lparr>task_id = n, task_text = ''call'', user_id = uid, priority = default_priority,
      completed = False, created_at = created, completed_at = None,
      scheduled_date = sdate, scheduled_time = stime\<rparr>"

definition ex_now :: datetime where
  "ex_now = mk_datetime 2024 1 20 15 0 30"

definition ex_today_tasks :: "task list" where
  "ex_today_tasks =
     [ex_task 1 7 ''2024-01-20T09:00:00'' None None,
      ex_task 2 7 ''2024-01-19T09:00:00'' (Some ''20.01.2024'') (Some ''18:00''),
      (ex_task 3 7 ''2024-01-20T09:30:00'' None None)
        \<lparr>completed := True, completed_at := Some ''2024-01-20T10:00:00''\<rparr>,
      ex_task 4 7 ''2024-01-19T09:00:00'' (Some ''soon'') None,
      ex_task 5 8 ''2024-01-20T09:00:00'' None None,
      ex_task 6 7 ''2024-01-20T11:00:00'' (Some ''soon'') None]"

definition ex_bad_created :: "task list" where
  "ex_bad_created =
     [ex_task 1 7 ''2024-01-20T09:00:00'' None None,
      ex_task 2 7 ''yesterday'' None None]"

definition ex_one_task :: "task list" where
  "ex_one_task = [ex_task 1 7 ''2024-01-19T09:00:00'' None None]"

definition ex_ops :: "op list" where
  "ex_ops =
     [Create (mk_datetime 2024 1 20 9 0 0) ''call'' 7 default_priority None None,
      Create (mk_datetime 2024 1 20 9 5 0) ''meet'' 8 default_priority
        (Some ''20.01.2024'') (Some ''15:00''),
      Complete (mk_datetime 2024 1 20 9 10 0) 7 1,
      Tick (mk_datetime 2024 1 20 15 0 30),
      Create (mk_datetime 2024 1 20 16 0 0) ''shop'' 7 default_priority None None,
      Tick (mk_datetime 2024 1 20 16 1 0)]"

definition ex_two_scheduled :: "task list" where
  "ex_two_scheduled =
     [ex_task 1 7 ''2024-01-19T09:00:00'' (Some ''20.01.2024'') (Some ''15:00''),
      ex_task 2 7 ''2024-01-19T09:05:00'' (Some ''21.01.2024'') (Some ''08:00'')]"

definition ex_tick :: "exn option \<times> nat list \<times> ex_world state" where
  "ex_tick = send_reminders_sync ex_env ex_lib True ex_now (ex_store ex_two_scheduled)"

definition ex_two_due :: "task list" where
  "ex_two_due =
     [ex_task 1 13 ''2024-01-19T09:00:00'' (Some ''20.01.2024'') (Some ''15:00''),
      ex_task 2 7 ''2024-01-19T09:05:00'' (Some ''20.01.2024'') (Some ''14:00'')]"

definition ex_bad_time :: "task list" where
  "ex_bad_time =
     [ex_task 1 13 ''2024-01-19T09:00:00'' (Some ''20.01.2024'') (Some ''soon''),
      ex_task 2 7 ''2024-01-19T09:05:00'' (Some ''20.01.2024'') (Some ''14:00'')]"


text \<open>
  A task created on the empty store, and three later calls: a second creation for the
  same user, the completion of the first task, and a run of the scheduler.
\<close>

definition ex_created :: "int \<times> ex_world state" where
  "ex_created =
     add_task ex_env ex_lib ex_now ''call'' 7 default_priority (Some ''20.01.2024'')
       (Some ''18:00'') ex_start"

definition ex_after_create :: "op list" where
  "ex_after_create =
     [Create (mk_datetime 2024 1 20 16 0 0) ''shop'' 7 default_priority None None,
      Complete (mk_datetime 2024 1 20 17 0 0) 7 1,
      Tick (mk_datetime 2024 1 20 18 0 30)]"

section \<open>Properties\<close>

subsection \<open>Basic facts about the operations\<close>

lemma tasks_save_tasks [simp]: "tasks (save_tasks E s) = tasks s"
  by (simp add: save_tasks_def split: prod.splits option.splits)



lemma add_task_eq:
  "add_task E L now text uid prio sdate stime s =
     (int (length (tasks s)) + 1,
      save_tasks E (s\<lparr>tasks := tasks s @
         [new_task L now (int (length (tasks s)) + 1) text uid prio sdate stime]\<rparr>))"
  by (simp add: add_task_def Let_def)

lemma task_id_new_task [simp]: "task_id (new_task L now n text uid prio sdate stime) = n"
  by (simp add: new_task_def)

lemma user_id_new_task [simp]: "user_id (new_task L now n text uid prio sdate stime) = uid"
  by (simp add: new_task_def)

lemma completed_new_task [simp]: "\<not> completed (new_task L now n text uid prio sdate stime)"
  by (simp add: new_task_def)

lemma mark_loop_None: "mark_loop stamp uid tid ts = None \<longleftrightarrow> (\<forall>t \<in> set ts. \<not> (task_id t = tid \<and> user_id t = uid))"
  by (induction ts) auto

lemma mark_loop_Some:
  "mark_loop stamp uid tid ts = Some ts' \<Longrightarrow>
     \<exists>k<length ts. task_id (ts ! k) = tid \<and> user_id (ts ! k) = uid \<and>
        (\<forall>j<k. \<not> (task_id (ts ! j) = tid \<and> user_id (ts ! j) = uid)) \<and>
        ts' = ts[k := (ts ! k)\<lparr>completed := True, completed_at := Some stamp\<rparr>]"
proof (induction ts arbitrary: ts')
  case Nil
  then show ?case by simp
next
  case (Cons t ts)
  show ?case
  proof (cases "task_id t = tid \<and> user_id t = uid")
    case True
    with Cons.prems show ?thesis by (intro exI[of _ 0]) auto
  next
    case False
    with Cons.prems obtain us where us: "mark_loop stamp uid tid ts = Some us" "ts' = t # us"
      by auto
    from Cons.IH[OF us(1)] obtain k where k: "k < length ts" "task_id (ts ! k) = tid"
      "user_id (ts ! k) = uid"
      "\<forall>j<k. \<not> (task_id (ts ! j) = tid \<and> user_id (ts ! j) = uid)"
      "us = ts[k := (ts ! k)\<lparr>completed := True, completed_at := Some stamp\<rparr>]"
      by blast
    have "\<forall>j<Suc k. \<not> (task_id ((t # ts) ! j) = tid \<and> user_id ((t # ts) ! j) = uid)"
      using False k(4) by (auto simp: nth_Cons split: nat.splits)
    with k us(2) show ?thesis by (intro exI[of _ "Suc k"]) auto
  qed
qed


text \<open>
  \<open>mark_task_done\<close> returns \<open>True\<close> exactly when some task has the id and the owner,
  and then it marks the first such task.
\<close>

lemma mark_task_done_True_iff:
  "fst (mark_task_done E L now uid tid s) \<longleftrightarrow>
     (\<exists>t\<in>set (tasks s). task_id t = tid \<and> user_id t = uid)"
proof (cases "mark_loop (isoformat L now) uid tid (tasks s)")
  case None
  then have "\<not> (\<exists>t\<in>set (tasks s). task_id t = tid \<and> user_id t = uid)"
    unfolding mark_loop_None by blast
  with None show ?thesis by (simp add: mark_task_done_def)
next
  case (Some ts')
  then have "mark_loop (isoformat L now) uid tid (tasks s) \<noteq> None" by simp
  then have "\<exists>t\<in>set (tasks s). task_id t = tid \<and> user_id t = uid"
    unfolding mark_loop_None by blast
  with Some show ?thesis by (simp add: mark_task_done_def)
qed

lemma mark_task_done_tasks:
  "fst (mark_task_done E L now uid tid s) \<Longrightarrow>
     \<exists>k<length (tasks s). task_id (tasks s ! k) = tid \<and> user_id (tasks s ! k) = uid \<and>
       (\<forall>j<k. \<not> (task_id (tasks s ! j) = tid \<and> user_id (tasks s ! j) = uid)) \<and>
       tasks (snd (mark_task_done E L now uid tid s)) =
         (tasks s)[k := (tasks s ! k)\<lparr>completed := True, completed_at := Some (isoformat L now)\<rparr>]"
  by (cases "mark_loop (isoformat L now) uid tid (tasks s)")
     (auto simp: mark_task_done_def dest: mark_loop_Some)

lemma mark_task_done_effect:
  assumes "mark_task_done E L now uid tid s = (b, s')"
  shows "length (tasks s') = length (tasks s)"
    and "map task_id (tasks s') = map task_id (tasks s)"
    and "j < length (tasks s) \<Longrightarrow> is_scheduled (tasks s' ! j) \<Longrightarrow> is_scheduled (tasks s ! j)"
proof -
  have "tasks s' = tasks s \<or>
        (\<exists>k<length (tasks s). tasks s' =
           (tasks s)[k := (tasks s ! k)\<lparr>completed := True, completed_at := Some (isoformat L now)\<rparr>])"
  proof (cases "mark_loop (isoformat L now) uid tid (tasks s)")
    case None
    with assms show ?thesis by (simp add: mark_task_done_def)
  next
    case (Some a)
    with assms have "tasks s' = a" by (auto simp: mark_task_done_def)
    with mark_loop_Some[OF Some] show ?thesis by blast
  qed
  then consider "tasks s' = tasks s"
    | k where "k < length (tasks s)" "tasks s' =
           (tasks s)[k := (tasks s ! k)\<lparr>completed := True, completed_at := Some (isoformat L now)\<rparr>]"
    by blast
  then have "length (tasks s') = length (tasks s) \<and> map task_id (tasks s') = map task_id (tasks s) \<and>
     (j < length (tasks s) \<longrightarrow> is_scheduled (tasks s' ! j) \<longrightarrow> is_scheduled (tasks s ! j))"
  proof cases
    case 1
    then show ?thesis by simp
  next
    case 2
    have "map task_id (tasks s') = map task_id (tasks s)"
      using 2 by (auto intro!: nth_equalityI simp: nth_list_update)
    moreover have "j < length (tasks s) \<longrightarrow> is_scheduled (tasks s' ! j) \<longrightarrow> is_scheduled (tasks s ! j)"
      using 2 by (auto simp: nth_list_update is_scheduled_def)
    ultimately show ?thesis using 2 by simp
  qed
  then show "length (tasks s') = length (tasks s)"
    and "map task_id (tasks s') = map task_id (tasks s)"
    and "j < length (tasks s) \<Longrightarrow> is_scheduled (tasks s' ! j) \<Longrightarrow> is_scheduled (tasks s ! j)"
    by simp_all
qed

subsection \<open>The body of the scheduler's loop\<close>

lemma remind_task_length: "remind_task E L now i s = (r, s') \<Longrightarrow> length (tasks s') = length (tasks s)"
  by (auto simp: remind_task_def Let_def split: if_splits option.splits prod.splits)

lemma remind_task_Sent:
  "remind_task E L now i s = (Sent, s') \<Longrightarrow>
     truthy (scheduled_date (tasks s ! i)) \<and> truthy (scheduled_time (tasks s ! i)) \<and>
     tasks s' = (tasks s)[i := clear_schedule (tasks s ! i)]"
  by (auto simp: remind_task_def Let_def split: if_splits option.splits prod.splits)

lemma remind_task_not_Sent:
  "remind_task E L now i s = (r, s') \<Longrightarrow> r \<noteq> Sent \<Longrightarrow> tasks s' = tasks s"
  by (auto simp: remind_task_def Let_def split: if_splits option.splits prod.splits)

lemma remind_task_Sent_due:
  "remind_task E L now i s = (Sent, s') \<Longrightarrow> is_due L now (tasks s ! i)"
  by (auto simp: remind_task_def due_instant_def is_due_def Let_def
      split: if_splits option.splits prod.splits)

lemma remind_task_no_raise:
  assumes "\<forall>w c m. fst (send_message E w c m) = None"
  shows "fst (remind_task E L now i s) \<noteq> Raised e"
proof -
  have "\<And>w c m x w'. send_message E w c m \<noteq> (Some x, w')"
    using assms by (metis fst_conv option.distinct(1))
  then show ?thesis
    by (auto simp: remind_task_def Let_def split: if_splits option.splits prod.splits)
qed

text \<open>
  When every message is delivered, a task with both schedule entries gets its reminder
  exactly when it is due.
\<close>

lemma remind_task_delivers:
  assumes "\<forall>w c m. fst (send_message E w c m) = None"
    and "truthy (scheduled_date (tasks s ! i))" and "truthy (scheduled_time (tasks s ! i))"
  shows "fst (remind_task E L now i s) = (if is_due L now (tasks s ! i) then Sent else Next)"
proof -
  have ok: "\<And>w c m x w'. send_message E w c m \<noteq> (Some x, w')"
    using assms(1) by (metis fst_conv option.distinct(1))
  from assms(2,3) show ?thesis
    by (auto simp: remind_task_def is_due_def due_instant_def Let_def ok
        split: option.splits prod.splits)
qed

text \<open>
  The delivery itself: for a task with both entries that is due, when \<open>send_message\<close>
  returns normally the body sends the rendered reminder to the owner, sets both schedule
  entries of that task to \<open>None\<close> and saves, in this order.
\<close>

lemma remind_task_sends:
  assumes "scheduled_date (tasks s ! i) = Some ds" and "ds \<noteq> []"
    and "scheduled_time (tasks s ! i) = Some tm" and "tm \<noteq> []"
    and "is_due L now (tasks s ! i)"
    and "send_message E (world s) (user_id (tasks s ! i)) (render (tasks s ! i) ds tm) = (None, w')"
  shows "remind_task E L now i s =
           (Sent, save_tasks E
              (s\<lparr>world := w',
                 tasks := (tasks s)[i := (tasks s ! i)\<lparr>scheduled_date := None,
                                                        scheduled_time := None\<rparr>]\<rparr>))"
  using assms
  by (auto simp: remind_task_def is_due_def due_instant_def clear_schedule_def Let_def
      split: option.splits)

text \<open>
  The two kinds of failure in the loop's body. A schedule that does not parse is logged
  and the loop goes on with the same tasks; an exception of \<open>send_message\<close> other than
  \<open>ValueError\<close> leaves the loop, so the tasks after it are not looked at in that run.
\<close>

lemma remind_task_parse_failure:
  assumes "due_instant L (tasks s ! i) = None"
  shows "fst (remind_task E L now i s) = Next"
    and "tasks (snd (remind_task E L now i s)) = tasks s"
    and "world (snd (remind_task E L now i s)) = world s"
  using assms
  by (auto simp: remind_task_def due_instant_def Let_def split: option.splits)

lemma remind_task_delivery_failure:
  assumes "scheduled_date (tasks s ! i) = Some ds" and "ds \<noteq> []"
    and "scheduled_time (tasks s ! i) = Some tm" and "tm \<noteq> []"
    and "is_due L now (tasks s ! i)"
    and "send_message E (world s) (user_id (tasks s ! i)) (render (tasks s ! i) ds tm) = (Some e, w')"
    and "e \<noteq> ValueError"
  shows "remind_task E L now i s = (Raised e, s\<lparr>world := w'\<rparr>)"
  using assms
  by (auto simp: remind_task_def is_due_def due_instant_def Let_def split: option.splits)

lemma reminders_loop_aborts:
  assumes "remind_task E L now i s = (Raised e, s1)"
  shows "reminders_loop E L now (i # is) s = (Some e, [], s1)"
  using assms by simp

subsection \<open>One run of the scheduler\<close>

lemma reminders_loop_length:
  "reminders_loop E L now is s = (r, sent, s') \<Longrightarrow> length (tasks s') = length (tasks s)"
proof (induction "is" arbitrary: s r sent s')
  case Nil
  then show ?case by simp
next
  case (Cons i "is")
  obtain st s1 where st: "remind_task E L now i s = (st, s1)"
    by (cases "remind_task E L now i s")
  have l1: "length (tasks s1) = length (tasks s)" using st by (rule remind_task_length)
  show ?case
  proof (cases st)
    case Next
    with Cons.prems st have "reminders_loop E L now is s1 = (r, sent, s')" by simp
    from Cons.IH[OF this] l1 show ?thesis by simp
  next
    case Sent
    with Cons.prems st obtain sent' where "reminders_loop E L now is s1 = (r, sent', s')"
      by (auto split: prod.splits)
    from Cons.IH[OF this] l1 show ?thesis by simp
  next
    case (Raised e)
    with Cons.prems st have "s' = s1" by simp
    with l1 show ?thesis by simp
  qed
qed

text \<open>
  What one run of the loop does to each task, and which tasks it reports as sent.
\<close>

lemma reminders_loop_effect:
  assumes "distinct is" and "\<forall>j\<in>set is. j < length (tasks s)"
    and "reminders_loop E L now is s = (r, sent, s')"
  shows "distinct sent \<and> set sent \<subseteq> set is \<and>
         (\<forall>j\<in>set sent. is_due L now (tasks s ! j)) \<and>
         (\<forall>j<length (tasks s). tasks s' ! j =
             (if j \<in> set sent then clear_schedule (tasks s ! j) else tasks s ! j))"
  using assms
proof (induction "is" arbitrary: s r sent s')
  case Nil
  then show ?case by simp
next
  case (Cons i "is")
  obtain st s1 where st: "remind_task E L now i s = (st, s1)"
    by (cases "remind_task E L now i s")
  have l1: "length (tasks s1) = length (tasks s)" using st by (rule remind_task_length)
  have d: "distinct is" "i \<notin> set is" "i < length (tasks s)"
    and b: "\<forall>j\<in>set is. j < length (tasks s1)"
    using Cons.prems(1,2) l1 by auto
  show ?case
  proof (cases st)
    case Next
    with st have same: "tasks s1 = tasks s" using remind_task_not_Sent by blast
    from Next Cons.prems(3) st have "reminders_loop E L now is s1 = (r, sent, s')" by simp
    from Cons.IH[OF d(1) b this] same show ?thesis by auto
  next
    case (Raised e)
    with st have same: "tasks s1 = tasks s" using remind_task_not_Sent by blast
    from Raised Cons.prems(3) st have "sent = []" "s' = s1" by auto
    with same show ?thesis by simp
  next
    case Sent
    from st Sent have upd: "tasks s1 = (tasks s)[i := clear_schedule (tasks s ! i)]"
      using remind_task_Sent by blast
    from st Sent have due: "is_due L now (tasks s ! i)"
      using remind_task_Sent_due by blast
    from Sent Cons.prems(3) st obtain sent' where
      rest: "reminders_loop E L now is s1 = (r, sent', s')" and sent: "sent = i # sent'"
      by (auto split: prod.splits)
    note ih = Cons.IH[OF d(1) b rest]
    have other: "\<And>j. j \<noteq> i \<Longrightarrow> tasks s1 ! j = tasks s ! j" using upd by simp
    have ati: "tasks s1 ! i = clear_schedule (tasks s ! i)" using upd d(3) by simp
    have ni: "i \<notin> set sent'" using ih d(2) by auto
    have 1: "distinct sent" using sent ih ni by simp
    have 2: "set sent \<subseteq> set (i # is)" using sent ih by auto
    have 3: "\<forall>j\<in>set sent. is_due L now (tasks s ! j)"
    proof
      fix j assume "j \<in> set sent"
      then consider "j = i" | "j \<in> set sent'" "j \<noteq> i" using sent ni by auto
      then show "is_due L now (tasks s ! j)"
      proof cases
        case 1 with due show ?thesis by simp
      next
        case 2
        with ih other show ?thesis by auto
      qed
    qed
    have 4: "\<forall>j<length (tasks s). tasks s' ! j =
             (if j \<in> set sent then clear_schedule (tasks s ! j) else tasks s ! j)"
    proof (intro allI impI)
      fix j assume j: "j < length (tasks s)"
      show "tasks s' ! j = (if j \<in> set sent then clear_schedule (tasks s ! j) else tasks s ! j)"
      proof (cases "j = i")
        case True
        with ih ni l1 j ati sent show ?thesis by auto
      next
        case False
        with ih l1 j other sent show ?thesis by auto
      qed
    qed
    from 1 2 3 4 show ?thesis by blast
  qed
qed

text \<open>
  When every message is delivered, the loop ends normally and sends to every due task.
\<close>

lemma reminders_loop_delivers:
  assumes "\<forall>w c m. fst (send_message E w c m) = None"
    and "distinct is" and "\<forall>j\<in>set is. j < length (tasks s)"
    and "reminders_loop E L now is s = (r, sent, s')"
  shows "r = None \<and>
         (\<forall>j\<in>set is. truthy (scheduled_date (tasks s ! j)) \<and> truthy (scheduled_time (tasks s ! j)) \<and>
              is_due L now (tasks s ! j) \<longrightarrow> j \<in> set sent)"
  using assms(2-)
proof (induction "is" arbitrary: s r sent s')
  case Nil
  then show ?case by simp
next
  case (Cons i "is")
  obtain st s1 where st: "remind_task E L now i s = (st, s1)"
    by (cases "remind_task E L now i s")
  have l1: "length (tasks s1) = length (tasks s)" using st by (rule remind_task_length)
  have d: "distinct is" "i \<notin> set is" "i < length (tasks s)"
    and b: "\<forall>j\<in>set is. j < length (tasks s1)"
    using Cons.prems(1,2) l1 by auto
  have nr: "\<And>e. st \<noteq> Raised e" using remind_task_no_raise[OF assms(1), of L now i s e for e] st
    by simp
  have other: "\<And>j. j \<in> set is \<Longrightarrow> tasks s1 ! j = tasks s ! j"
  proof -
    fix j assume "j \<in> set is"
    then have "j \<noteq> i" using d(2) by auto
    then show "tasks s1 ! j = tasks s ! j"
      using st remind_task_Sent[of E L now i s s1] remind_task_not_Sent[of E L now i s st s1]
      by (cases st) auto
  qed
  have head: "truthy (scheduled_date (tasks s ! i)) \<and> truthy (scheduled_time (tasks s ! i)) \<and>
              is_due L now (tasks s ! i) \<longrightarrow> st = Sent"
    using remind_task_delivers[OF assms(1), of s i L now] st by auto
  show ?case
  proof (cases st)
    case Next
    with Cons.prems(3) st have rest: "reminders_loop E L now is s1 = (r, sent, s')" by simp
    from Cons.IH[OF d(1) b rest] other head Next show ?thesis by auto
  next
    case Sent
    with Cons.prems(3) st obtain sent' where
      rest: "reminders_loop E L now is s1 = (r, sent', s')" and sent: "sent = i # sent'"
      by (auto split: prod.splits)
    from Cons.IH[OF d(1) b rest] other sent show ?thesis by auto
  next
    case (Raised e)
    with nr show ?thesis by blast
  qed
qed

lemma not_scheduled_clear [simp]: "\<not> is_scheduled (clear_schedule t)"
  by (simp add: is_scheduled_def clear_schedule_def)

lemma task_id_clear [simp]: "task_id (clear_schedule t) = task_id t"
  by (simp add: clear_schedule_def)

lemma get_scheduled_tasks_filter: "get_scheduled_tasks ts = filter is_scheduled ts"
proof -
  have "filter is_scheduled (map ((!) ts) [0..<length ts]) =
        map ((!) ts) (filter (is_scheduled \<circ> (!) ts) [0..<length ts])"
    by (rule filter_map)
  then show ?thesis
    by (simp add: get_scheduled_tasks_def scheduled_indices_def map_nth comp_def)
qed

lemma scheduled_indices_props:
  "distinct (scheduled_indices ts)"
  "\<forall>j\<in>set (scheduled_indices ts). j < length ts \<and> is_scheduled (ts ! j)"
  "j < length ts \<Longrightarrow> is_scheduled (ts ! j) \<Longrightarrow> j \<in> set (scheduled_indices ts)"
  by (auto simp: scheduled_indices_def)

text \<open>
  One run of \<open>send_reminders_sync\<close>, whatever the environment does.
\<close>

lemma send_reminders_sync_effect:
  assumes "send_reminders_sync E L app now s = (r, sent, s')"
  shows "length (tasks s') = length (tasks s)"
    and "distinct sent"
    and "\<forall>j\<in>set sent. j < length (tasks s) \<and> is_scheduled (tasks s ! j) \<and> is_due L now (tasks s ! j)"
    and "\<forall>j<length (tasks s). tasks s' ! j =
           (if j \<in> set sent then clear_schedule (tasks s ! j) else tasks s ! j)"
proof -
  show "length (tasks s') = length (tasks s)"
    using assms reminders_loop_length
    by (fastforce simp: send_reminders_sync_def split: if_splits)
  show "distinct sent"
    and "\<forall>j\<in>set sent. j < length (tasks s) \<and> is_scheduled (tasks s ! j) \<and> is_due L now (tasks s ! j)"
    and "\<forall>j<length (tasks s). tasks s' ! j =
           (if j \<in> set sent then clear_schedule (tasks s ! j) else tasks s ! j)"
  proof (atomize (full), cases app)
    case False
    with assms show "distinct sent \<and>
      (\<forall>j\<in>set sent. j < length (tasks s) \<and> is_scheduled (tasks s ! j) \<and> is_due L now (tasks s ! j)) \<and>
      (\<forall>j<length (tasks s). tasks s' ! j =
           (if j \<in> set sent then clear_schedule (tasks s ! j) else tasks s ! j))"
      by (simp add: send_reminders_sync_def)
  next
    case True
    with assms have loop: "reminders_loop E L now (scheduled_indices (tasks s)) s = (r, sent, s')"
      by (simp add: send_reminders_sync_def)
    have b: "\<forall>j\<in>set (scheduled_indices (tasks s)). j < length (tasks s)"
      using scheduled_indices_props(2) by blast
    from reminders_loop_effect[OF scheduled_indices_props(1) b loop] scheduled_indices_props(2)
    show "distinct sent \<and>
      (\<forall>j\<in>set sent. j < length (tasks s) \<and> is_scheduled (tasks s ! j) \<and> is_due L now (tasks s ! j)) \<and>
      (\<forall>j<length (tasks s). tasks s' ! j =
           (if j \<in> set sent then clear_schedule (tasks s ! j) else tasks s ! j))"
      by (meson subsetD)
  qed
qed

lemma send_reminders_sync_delivers:
  assumes "\<forall>w c m. fst (send_message E w c m) = None"
    and "send_reminders_sync E L True now s = (r, sent, s')"
  shows "r = None"
    and "j < length (tasks s) \<Longrightarrow> is_scheduled (tasks s ! j) \<Longrightarrow> is_due L now (tasks s ! j) \<Longrightarrow>
           j \<in> set sent"
proof -
  from assms(2) have loop: "reminders_loop E L now (scheduled_indices (tasks s)) s = (r, sent, s')"
    by (simp add: send_reminders_sync_def)
  have b: "\<forall>j\<in>set (scheduled_indices (tasks s)). j < length (tasks s)"
    using scheduled_indices_props(2) by blast
  note * = reminders_loop_delivers[OF assms(1) scheduled_indices_props(1) b loop]
  from * show "r = None" by simp
  assume "j < length (tasks s)" "is_scheduled (tasks s ! j)" "is_due L now (tasks s ! j)"
  with * scheduled_indices_props(3)[of j "tasks s"] show "j \<in> set sent"
    by (auto simp: is_scheduled_def)
qed

lemma run_check_effect:
  assumes "run_check E L app now s = (sent, s')"
  shows "length (tasks s') = length (tasks s)"
    and "distinct sent"
    and "\<forall>j\<in>set sent. j < length (tasks s) \<and> is_scheduled (tasks s ! j) \<and> is_due L now (tasks s ! j)"
    and "\<forall>j<length (tasks s). tasks s' ! j =
           (if j \<in> set sent then clear_schedule (tasks s ! j) else tasks s ! j)"
proof -
  obtain r s1 where t: "send_reminders_sync E L app now s = (r, sent, s1)" and s': "tasks s' = tasks s1"
    using assms
    by (cases "send_reminders_sync E L app now s")
       (auto simp: run_check_def send_reminders_sync_def split: if_splits option.splits)
  note e = send_reminders_sync_effect[OF t]
  show "length (tasks s') = length (tasks s)" using e(1) s' by simp
  show "distinct sent" using e(2) .
  show "\<forall>j\<in>set sent. j < length (tasks s) \<and> is_scheduled (tasks s ! j) \<and> is_due L now (tasks s ! j)"
    using e(3) .
  show "\<forall>j<length (tasks s). tasks s' ! j =
           (if j \<in> set sent then clear_schedule (tasks s ! j) else tasks s ! j)"
    using e(4) s' by simp
qed

lemma run_check_ids:
  assumes "run_check E L app now s = (sent, s')"
  shows "map task_id (tasks s') = map task_id (tasks s)"
  using run_check_effect(1,4)[OF assms] by (auto intro!: nth_equalityI)

subsection \<open>Runs\<close>

text \<open>
  The ids of a run: the store keeps its ids and appends the issued ones, which are the
  positions of the new tasks counted from 1.
\<close>

lemma run_issued_ids:
  "run E L ops s = (evs, s') \<Longrightarrow>
     length (tasks s) \<le> length (tasks s') \<and>
     issued_ids evs = map (\<lambda>k. int k + 1) [length (tasks s)..<length (tasks s')] \<and>
     map task_id (tasks s') = map task_id (tasks s) @ issued_ids evs"
proof (induction ops arbitrary: s evs s')
  case Nil
  then show ?case by simp
next
  case (Cons op ops)
  show ?case
  proof (cases op)
    case (Create now tx uid prio sdate stime)
    obtain evs1 where r: "run E L ops (snd (add_task E L now tx uid prio sdate stime s)) = (evs1, s')"
      and evs: "evs = Created (int (length (tasks s)) + 1) # evs1"
      using Cons.prems Create by (auto simp: add_task_eq split: prod.splits)
    let ?s1 = "snd (add_task E L now tx uid prio sdate stime s)"
    have t1: "tasks ?s1 = tasks s @ [new_task L now (int (length (tasks s)) + 1) tx uid prio sdate stime]"
      by (simp add: add_task_eq)
    from Cons.IH[OF r] t1 have ih: "Suc (length (tasks s)) \<le> length (tasks s')"
      "issued_ids evs1 = map (\<lambda>k. int k + 1) [Suc (length (tasks s))..<length (tasks s')]"
      "map task_id (tasks s') = map task_id (tasks s) @ [int (length (tasks s)) + 1] @ issued_ids evs1"
      by simp_all
    from ih(1) have "[length (tasks s)..<length (tasks s')] =
        length (tasks s) # [Suc (length (tasks s))..<length (tasks s')]"
      by (simp add: upt_conv_Cons)
    with ih evs show ?thesis by simp
  next
    case (Complete now uid tid)
    obtain b s1 where m: "mark_task_done E L now uid tid s = (b, s1)"
      by (cases "mark_task_done E L now uid tid s")
    with Cons.prems Complete obtain evs1 where r: "run E L ops s1 = (evs1, s')"
      and evs: "evs = Completed b # evs1"
      by (auto split: prod.splits)
    from Cons.IH[OF r] mark_task_done_effect(1,2)[OF m] evs show ?thesis by simp
  next
    case (Tick now)
    obtain sent s1 where m: "run_check E L True now s = (sent, s1)"
      by (cases "run_check E L True now s")
    with Cons.prems Tick obtain evs1 where r: "run E L ops s1 = (evs1, s')"
      and evs: "evs = Ticked sent # evs1"
      by (auto split: prod.splits)
    from Cons.IH[OF r] run_check_effect(1)[OF m] run_check_ids[OF m] evs show ?thesis by simp
  qed
qed

lemma sorted_issued: "sorted_wrt (<) (map (\<lambda>k. int k + 1) [a..<b])"
proof -
  have "sorted_wrt (\<lambda>x y. int x + 1 < int y + 1) [a..<b]"
    by (rule sorted_wrt_mono_rel[OF _ sorted_wrt_upt]) simp
  then show ?thesis by (simp only: sorted_wrt_map)
qed

lemma upt_split: "a \<le> b \<Longrightarrow> [0..<a] @ [a..<b] = [0..<b]"
  using upt_add_eq_append[of 0 a "b - a"] by simp

lemma count_list_distinct:
  "distinct xs \<Longrightarrow> count_list xs x = (if x \<in> set xs then 1 else 0)"
  by (induction xs) auto

text \<open>
  A task that is not scheduled never gets a reminder, and no task gets two: once a
  reminder is delivered the task is no longer scheduled, and no call schedules a stored task.
\<close>

lemma run_reminded_once:
  "run E L ops s = (evs, s') \<Longrightarrow>
     count_list (reminded evs) i \<le> 1 \<and>
     (i < length (tasks s) \<and> \<not> is_scheduled (tasks s ! i) \<longrightarrow> i \<notin> set (reminded evs))"
proof (induction ops arbitrary: s evs s')
  case Nil
  then show ?case by simp
next
  case (Cons op ops)
  show ?case
  proof (cases op)
    case (Create now tx uid prio sdate stime)
    obtain evs1 where r: "run E L ops (snd (add_task E L now tx uid prio sdate stime s)) = (evs1, s')"
      and evs: "evs = Created (int (length (tasks s)) + 1) # evs1"
      using Cons.prems Create by (auto simp: add_task_eq split: prod.splits)
    from Cons.IH[OF r] evs show ?thesis by (auto simp: add_task_eq nth_append)
  next
    case (Complete now uid tid)
    obtain b s1 where m: "mark_task_done E L now uid tid s = (b, s1)"
      by (cases "mark_task_done E L now uid tid s")
    with Cons.prems Complete obtain evs1 where r: "run E L ops s1 = (evs1, s')"
      and evs: "evs = Completed b # evs1"
      by (auto split: prod.splits)
    from Cons.IH[OF r] mark_task_done_effect(1)[OF m] mark_task_done_effect(3)[OF m, of i] evs
    show ?thesis by auto
  next
    case (Tick now)
    obtain sent s1 where m: "run_check E L True now s = (sent, s1)"
      by (cases "run_check E L True now s")
    with Cons.prems Tick obtain evs1 where r: "run E L ops s1 = (evs1, s')"
      and evs: "evs = Ticked sent # evs1"
      by (auto split: prod.splits)
    note e = run_check_effect[OF m]
    note ih = Cons.IH[OF r]
    have c: "count_list sent i = (if i \<in> set sent then 1 else 0)"
      using e(2) by (rule count_list_distinct)
    show ?thesis
    proof (cases "i \<in> set sent")
      case True
      with e(3) have i: "i < length (tasks s)" "is_scheduled (tasks s ! i)" by auto
      with e(4) True have "tasks s1 ! i = clear_schedule (tasks s ! i)" by simp
      then have "\<not> is_scheduled (tasks s1 ! i)" by simp
      with ih e(1) i(1) have "i \<notin> set (reminded evs1)" by simp
      then have "count_list (reminded evs1) i = 0" by (simp add: count_list_0_iff)
      with c True i evs show ?thesis by simp
    next
      case False
      then have "count_list sent i = 0" using c by simp
      moreover have "i < length (tasks s) \<and> \<not> is_scheduled (tasks s ! i) \<longrightarrow>
          i \<notin> set (reminded evs1)"
        using ih e(1,4) False by auto
      ultimately show ?thesis using ih evs False by simp
    qed
  qed
qed

lemma same_identity_refl [simp]: "same_identity t t"
  by (simp add: same_identity_def)

lemma same_identity_trans: "same_identity a b \<Longrightarrow> same_identity b c \<Longrightarrow> same_identity a c"
  by (simp add: same_identity_def)

lemma same_identity_clear [simp]: "same_identity t (clear_schedule t)"
  by (simp add: same_identity_def clear_schedule_def)

lemma same_identity_done [simp]:
  "same_identity t (t\<lparr>completed := True, completed_at := Some stamp\<rparr>)"
  by (simp add: same_identity_def)

lemma run_check_keeps:
  assumes "run_check E L app now s = (sent, s')" and "j < length (tasks s)"
  shows "same_identity (tasks s ! j) (tasks s' ! j)"
  using run_check_effect(4)[OF assms(1)] assms(2) by simp

lemma mark_task_done_keeps:
  assumes "mark_task_done E L now uid tid s = (b, s')" and "j < length (tasks s)"
  shows "same_identity (tasks s ! j) (tasks s' ! j)"
proof (cases "mark_loop (isoformat L now) uid tid (tasks s)")
  case None
  with assms(1) show ?thesis by (simp add: mark_task_done_def)
next
  case (Some a)
  with assms(1) have "tasks s' = a" by (auto simp: mark_task_done_def)
  with mark_loop_Some[OF Some] assms(2) show ?thesis
    by (auto simp: nth_list_update)
qed

text \<open>
  No call removes a task or changes its id, text, owner, priority or creation time.
\<close>

lemma run_keeps:
  "run E L ops s = (evs, s') \<Longrightarrow> j < length (tasks s) \<Longrightarrow>
     j < length (tasks s') \<and> same_identity (tasks s ! j) (tasks s' ! j)"
proof (induction ops arbitrary: s evs)
  case Nil
  then show ?case by simp
next
  case (Cons op ops)
  show ?case
  proof (cases op)
    case (Create now tx uid prio sdate stime)
    let ?s1 = "snd (add_task E L now tx uid prio sdate stime s)"
    obtain evs1 where r: "run E L ops ?s1 = (evs1, s')"
      using Cons.prems(1) Create by (auto simp: add_task_eq split: prod.splits)
    have j1: "j < length (tasks ?s1)" "tasks ?s1 ! j = tasks s ! j"
      using Cons.prems(2) by (simp_all add: add_task_eq nth_append)
    from Cons.IH[OF r j1(1)] j1(2) show ?thesis by simp
  next
    case (Complete now uid tid)
    obtain b s1 where m: "mark_task_done E L now uid tid s = (b, s1)"
      by (cases "mark_task_done E L now uid tid s")
    with Cons.prems(1) Complete obtain evs1 where r: "run E L ops s1 = (evs1, s')"
      by (auto split: prod.splits)
    have j1: "j < length (tasks s1)"
      using mark_task_done_effect(1)[OF m] Cons.prems(2) by simp
    from Cons.IH[OF r j1] mark_task_done_keeps[OF m Cons.prems(2)] show ?thesis
      by (blast intro: same_identity_trans)
  next
    case (Tick now)
    obtain sent s1 where m: "run_check E L True now s = (sent, s1)"
      by (cases "run_check E L True now s")
    with Cons.prems(1) Tick obtain evs1 where r: "run E L ops s1 = (evs1, s')"
      by (auto split: prod.splits)
    have j1: "j < length (tasks s1)"
      using run_check_effect(1)[OF m] Cons.prems(2) by simp
    from Cons.IH[OF r j1] run_check_keeps[OF m Cons.prems(2)] show ?thesis
      by (blast intro: same_identity_trans)
  qed
qed

subsection \<open>One run of the scheduler on a scheduled task\<close>

text \<open>
  Take an uncompleted task at position \<open>i\<close> whose two schedule entries are present and
  parse to the instant \<open>due\<close>, and one run of the scheduler with the clock value
  \<open>now\<close>, read once. The run deletes no task. It delivers a reminder for the task only
  if \<open>now\<close> is at or after \<open>due\<close>, and at most one; when every \<open>send_message\<close> of
  the environment returns normally, the run ends normally and delivers the reminder if and
  only if \<open>now\<close> is at or after \<open>due\<close>. A task whose reminder was delivered is left
  with both schedule entries \<open>None\<close> and is otherwise unchanged, and no later sequence
  of calls, in any environment, delivers a reminder for it again; every other task is left
  as it was, in particular a task whose instant is strictly after \<open>now\<close>. In any
  sequence of calls from the given state the task gets at most one reminder.
\<close>

lemma scheduler_run_on_task:
  assumes "i < length (tasks s)" and "is_scheduled (tasks s ! i)"
    and "due_instant L (tasks s ! i) = Some due"
    and "send_reminders_sync E L True now s = (r, sent, s')"
  shows "length (tasks s') = length (tasks s) \<and>
         count_list sent i \<le> 1 \<and>
         (i \<in> set sent \<longrightarrow> datetime_ge now due) \<and>
         ((\<forall>w c m. fst (send_message E w c m) = None) \<longrightarrow>
            r = None \<and> (i \<in> set sent \<longleftrightarrow> datetime_ge now due)) \<and>
         (i \<in> set sent \<longrightarrow>
            tasks s' ! i = (tasks s ! i)\<lparr>scheduled_date := None, scheduled_time := None\<rparr>) \<and>
         (i \<notin> set sent \<longrightarrow> tasks s' ! i = tasks s ! i) \<and>
         (\<not> datetime_ge now due \<longrightarrow> i \<notin> set sent \<and> tasks s' ! i = tasks s ! i) \<and>
         (i \<in> set sent \<longrightarrow>
            (\<forall>E' L' ops. i \<notin> set (reminded (fst (run E' L' ops s'))))) \<and>
         (\<forall>E' L' ops. count_list (reminded (fst (run E' L' ops s))) i \<le> 1)"
proof -
  note e = send_reminders_sync_effect[OF assms(4)]
  have due: "is_due L now (tasks s ! i) = datetime_ge now due"
    using assms(3) by (simp add: is_due_def)
  have 1: "length (tasks s') = length (tasks s)" using e(1) .
  have 2: "count_list sent i \<le> 1" using e(2) by (simp add: count_list_distinct)
  have 3: "i \<in> set sent \<longrightarrow> datetime_ge now due" using e(3) due by auto
  have 4: "r = None \<and> (i \<in> set sent \<longleftrightarrow> datetime_ge now due)"
    if d: "\<forall>w c m. fst (send_message E w c m) = None"
    using send_reminders_sync_delivers[OF d assms(4)] assms(1,2) due 3 by auto
  have 5: "i \<in> set sent \<longrightarrow>
            tasks s' ! i = (tasks s ! i)\<lparr>scheduled_date := None, scheduled_time := None\<rparr>"
    and 6: "i \<notin> set sent \<longrightarrow> tasks s' ! i = tasks s ! i"
    using e(4) assms(1) by (auto simp: clear_schedule_def)
  have 7: "\<not> datetime_ge now due \<longrightarrow> i \<notin> set sent \<and> tasks s' ! i = tasks s ! i"
    using 3 6 by blast
  have 8: "i \<notin> set (reminded (fst (run E' L' ops s')))" if "i \<in> set sent" for E' L' ops
  proof -
    from that 5 have "\<not> is_scheduled (tasks s' ! i)" by (simp add: is_scheduled_def)
    moreover have "run E' L' ops s' = (fst (run E' L' ops s'), snd (run E' L' ops s'))" by simp
    ultimately show ?thesis using run_reminded_once[of E' L' ops s' _ _ i] 1 assms(1) by metis
  qed
  have 9: "count_list (reminded (fst (run E' L' ops s))) i \<le> 1" for E' :: "'a env" and L' ops
    using run_reminded_once[of E' L' ops s "fst (run E' L' ops s)" "snd (run E' L' ops s)" i]
    by simp
  from 1 2 3 4 5 6 7 8 9 show ?thesis by blast
qed

text \<open>
  On a store with one task due at 15:00 of the day and one due the next morning, at
  15:00:30: the first gets its reminder and loses its schedule, a run on the next day
  sends nothing more for it, and the second is untouched.
\<close>

lemma scheduler_run_on_task_example:
  "fst ex_tick = None \<and>
   length (tasks (snd (snd ex_tick))) = 2 \<and>
   0 \<in> set (fst (snd ex_tick)) \<and>
   tasks (snd (snd ex_tick)) ! 0 =
     (ex_two_scheduled ! 0)\<lparr>scheduled_date := None, scheduled_time := None\<rparr> \<and>
   0 \<notin> set (reminded (fst (run ex_env ex_lib [Tick (mk_datetime 2024 1 21 9 0 0)]
                               (snd (snd ex_tick))))) \<and>
   1 \<notin> set (fst (snd ex_tick)) \<and>
   tasks (snd (snd ex_tick)) ! 1 = ex_two_scheduled ! 1"
proof -
  have t: "send_reminders_sync ex_env ex_lib True ex_now (ex_store ex_two_scheduled) =
             (fst ex_tick, fst (snd ex_tick), snd (snd ex_tick))"
    by (simp add: ex_tick_def)
  have ts: "tasks (ex_store ex_two_scheduled) = ex_two_scheduled"
    by (simp add: ex_store_def)
  have a0: "0 < length (tasks (ex_store ex_two_scheduled))"
    and a1: "1 < length (tasks (ex_store ex_two_scheduled))"
    by (simp_all add: ex_store_def ex_two_scheduled_def)
  have b0: "is_scheduled (tasks (ex_store ex_two_scheduled) ! 0)"
    and b1: "is_scheduled (tasks (ex_store ex_two_scheduled) ! 1)"
    by (simp_all add: ex_store_def ex_two_scheduled_def ex_task_def is_scheduled_def)
  have c0: "due_instant ex_lib (tasks (ex_store ex_two_scheduled) ! 0) =
              Some (mk_datetime 2024 1 20 15 0 0)"
    by code_simp
  have c1: "due_instant ex_lib (tasks (ex_store ex_two_scheduled) ! 1) =
              Some (mk_datetime 2024 1 21 8 0 0)"
    by code_simp
  have d: "\<forall>w c m. fst (send_message ex_env w c m) = None"
    by (simp add: ex_env_def ex_send_def)
  have g0: "datetime_ge ex_now (mk_datetime 2024 1 20 15 0 0)" by code_simp
  have g1: "\<not> datetime_ge ex_now (mk_datetime 2024 1 21 8 0 0)" by code_simp
  have l: "length ex_two_scheduled = 2" by (simp add: ex_two_scheduled_def)
  note w0 = scheduler_run_on_task[OF a0 b0 c0 t]
  note w1 = scheduler_run_on_task[OF a1 b1 c1 t]
  from w0 d g0 have s0: "fst ex_tick = None" "0 \<in> set (fst (snd ex_tick))" by blast+
  from w0 s0 have "tasks (snd (snd ex_tick)) ! 0 =
      (ex_two_scheduled ! 0)\<lparr>scheduled_date := None, scheduled_time := None\<rparr>"
    "length (tasks (snd (snd ex_tick))) = 2"
    "0 \<notin> set (reminded (fst (run ex_env ex_lib [Tick (mk_datetime 2024 1 21 9 0 0)]
                               (snd (snd ex_tick)))))"
    unfolding ts l by blast+
  moreover from w1 g1 have "1 \<notin> set (fst (snd ex_tick))"
    "tasks (snd (snd ex_tick)) ! 1 = ex_two_scheduled ! 1"
    unfolding ts by blast+
  ultimately show ?thesis using s0 by simp
qed

subsection \<open>A due task that gets no reminder (claim C1)\<close>

text \<open>
  Claim C1 says that a run of the scheduler sends the reminder of a scheduled,
  uncompleted task if and only if \<open>now\<close> is at or after its instant. The store holds two
  such tasks, of the users 13 and 7, due at 15:00 and at 14:00 of the day, and the run
  takes place at 15:00:30. When messages to user 13 raise \<open>TelegramError\<close>, a message to
  user 7 would be delivered, yet the run ends with the exception at the first task:
  nothing is sent to user 7, whose task is due, and its schedule entries stay as they
  were. When every message is delivered, the same run sends both reminders, to the
  owners and with the entries of the tasks, sets the four schedule entries to \<open>None\<close>
  and saves.
\<close>

theorem due_task_not_reminded_example:
  "is_scheduled (ex_two_due ! 1) \<and>
   due_instant ex_lib (ex_two_due ! 1) = Some (mk_datetime 2024 1 20 14 0 0) \<and>
   datetime_ge ex_now (mk_datetime 2024 1 20 14 0 0) \<and>
   fst (send_message (ex_env_blocked 13) \<lparr>disk = ex_two_due, outbox = []\<rparr> 7
          (render (ex_two_due ! 1) ''20.01.2024'' ''14:00'')) = None \<and>
   send_reminders_sync (ex_env_blocked 13) ex_lib True ex_now (ex_store ex_two_due) =
     (Some TelegramError, [],
      \<lparr>tasks = ex_two_due, world = \<lparr>disk = ex_two_due, outbox = []\<rparr>, errors = []\<rparr>) \<and>
   scheduled_date (ex_two_due ! 1) = Some ''20.01.2024'' \<and>
   scheduled_time (ex_two_due ! 1) = Some ''14:00'' \<and>
   send_reminders_sync ex_env ex_lib True ex_now (ex_store ex_two_due) =
     (None, [0, 1],
      \<lparr>tasks =
         [(ex_two_due ! 0)\<lparr>scheduled_date := None, scheduled_time := None\<rparr>,
          (ex_two_due ! 1)\<lparr>scheduled_date := None, scheduled_time := None\<rparr>],
       world =
         \<lparr>disk =
            [(ex_two_due ! 0)\<lparr>scheduled_date := None, scheduled_time := None\<rparr>,
             (ex_two_due ! 1)\<lparr>scheduled_date := None, scheduled_time := None\<rparr>],
          outbox =
            [(13, \<lparr>r_priority = default_priority, r_id = 1, r_text = ''call'',
                   r_date = ''20.01.2024'', r_time = ''15:00''\<rparr>),
             (7, \<lparr>r_priority = default_priority, r_id = 2, r_text = ''call'',
                  r_date = ''20.01.2024'', r_time = ''14:00''\<rparr>)]\<rparr>,
       errors = []\<rparr>)"
  by code_simp

subsection \<open>Completing twice (claim C2)\<close>

text \<open>
  Claim C2 says that a second \<open>Complete\<close> on the same task returns false and changes
  nothing. \<open>mark_task_done\<close> tests the id and the owner of a task and not its entry
  \<open>completed\<close>: on a store with the one task 1 of user 7, both calls return \<open>True\<close>,
  and the second replaces \<open>completed_at\<close> by its own time.
\<close>

theorem mark_task_done_twice_example:
  "mark_task_done ex_env ex_lib (mk_datetime 2024 1 20 15 0 30) 7 1 (ex_store ex_one_task) =
     (True, ex_store [(ex_task 1 7 ''2024-01-19T09:00:00'' None None)
               \<lparr>completed := True, completed_at := Some ''2024-01-20T15:00:30''\<rparr>]) \<and>
   mark_task_done ex_env ex_lib (mk_datetime 2024 1 21 9 0 0) 7 1
     (ex_store [(ex_task 1 7 ''2024-01-19T09:00:00'' None None)
               \<lparr>completed := True, completed_at := Some ''2024-01-20T15:00:30''\<rparr>]) =
     (True, ex_store [(ex_task 1 7 ''2024-01-19T09:00:00'' None None)
               \<lparr>completed := True, completed_at := Some ''2024-01-21T09:00:00''\<rparr>])"
  by code_simp

text \<open>
  In general a call that returned \<open>True\<close> is followed by \<open>True\<close> for the same
  arguments, at any later time.
\<close>

lemma mark_task_done_again:
  assumes "fst (mark_task_done E L now uid tid s)"
  shows "fst (mark_task_done E' L' now' uid tid (snd (mark_task_done E L now uid tid s)))"
proof -
  from mark_task_done_tasks[OF assms] obtain k where k: "k < length (tasks s)"
    "task_id (tasks s ! k) = tid" "user_id (tasks s ! k) = uid"
    "tasks (snd (mark_task_done E L now uid tid s)) =
       (tasks s)[k := (tasks s ! k)\<lparr>completed := True, completed_at := Some (isoformat L now)\<rparr>]"
    by blast
  let ?t = "(tasks s ! k)\<lparr>completed := True, completed_at := Some (isoformat L now)\<rparr>"
  have "?t \<in> set (tasks (snd (mark_task_done E L now uid tid s)))"
    using k(1,4) by (simp add: set_update_memI)
  moreover have "task_id ?t = tid \<and> user_id ?t = uid" using k(2,3) by simp
  ultimately show ?thesis unfolding mark_task_done_True_iff by blast
qed

subsection \<open>Creation does not validate (claim C3)\<close>

text \<open>
  Claim C3 says that \<open>Create\<close> fails, without mutation, on an empty text, a
  priority outside the three known ones, a date or time that does not parse, and a time
  without a date. \<open>add_task\<close> has no check: called on the empty store with an empty text,
  the priority \<open>urgent\<close>, no date and the time \<open>25:61\<close>, it returns the id 1 and stores
  and saves the task, which \<open>get_user_tasks\<close> then lists; it also stores the date
  \<open>32.13.2024\<close>.
\<close>

theorem add_task_accepts_invalid_input:
  "add_task ex_env ex_lib ex_now [] 7 ''urgent'' None (Some ''25:61'') ex_start =
     (1, ex_store
           [\<lparr>task_id = 1, task_text = [], user_id = 7, priority = ''urgent'',
             completed = False, created_at = ''2024-01-20T15:00:30'', completed_at = None,
             scheduled_date = None, scheduled_time = Some ''25:61''\<rparr>]) \<and>
   get_user_tasks
     (tasks (snd (add_task ex_env ex_lib ex_now [] 7 ''urgent'' None (Some ''25:61'') ex_start)))
     7 None =
     [\<lparr>task_id = 1, task_text = [], user_id = 7, priority = ''urgent'',
       completed = False, created_at = ''2024-01-20T15:00:30'', completed_at = None,
       scheduled_date = None, scheduled_time = Some ''25:61''\<rparr>] \<and>
   fst (add_task ex_env ex_lib ex_now ''call'' 7 default_priority (Some ''32.13.2024'')
          (Some ''15:00'') ex_start) = 1 \<and>
   map scheduled_date
     (tasks (snd (add_task ex_env ex_lib ex_now ''call'' 7 default_priority (Some ''32.13.2024'')
          (Some ''15:00'') ex_start))) = [Some ''32.13.2024'']"
  by code_simp

text \<open>
  Claim C3, amended. \<open>add_task\<close> accepts every input: for every text, priority, date
  and time it returns the number of stored tasks plus one and appends one task that carries
  the arguments as they are, uncompleted; right after the call the lists of all tasks and
  of the uncompleted tasks of the owner end with the new task. After any further sequence
  of creations, completions and scheduler runs, in any environment, the task is still
  stored at its position with its id, text, owner, priority and creation time, and is in
  the list of all tasks of its owner, and in the list filtered by its completion state.
\<close>

theorem add_task_never_validates:
  assumes "run E' L' ops (snd (add_task E L now text uid prio sdate stime s)) = (evs, s2)"
  shows "fst (add_task E L now text uid prio sdate stime s) = int (length (tasks s)) + 1 \<and>
   tasks (snd (add_task E L now text uid prio sdate stime s)) =
     tasks s @
       [\<lparr>task_id = int (length (tasks s)) + 1, task_text = text, user_id = uid, priority = prio,
         completed = False, created_at = isoformat L now, completed_at = None,
         scheduled_date = sdate, scheduled_time = stime\<rparr>] \<and>
   get_user_tasks (tasks (snd (add_task E L now text uid prio sdate stime s))) uid None =
     get_user_tasks (tasks s) uid None @
       [\<lparr>task_id = int (length (tasks s)) + 1, task_text = text, user_id = uid, priority = prio,
         completed = False, created_at = isoformat L now, completed_at = None,
         scheduled_date = sdate, scheduled_time = stime\<rparr>] \<and>
   get_user_tasks (tasks (snd (add_task E L now text uid prio sdate stime s))) uid (Some False) =
     get_user_tasks (tasks s) uid (Some False) @
       [\<lparr>task_id = int (length (tasks s)) + 1, task_text = text, user_id = uid, priority = prio,
         completed = False, created_at = isoformat L now, completed_at = None,
         scheduled_date = sdate, scheduled_time = stime\<rparr>] \<and>
   length (tasks s) < length (tasks s2) \<and>
   task_id (tasks s2 ! length (tasks s)) = int (length (tasks s)) + 1 \<and>
   task_text (tasks s2 ! length (tasks s)) = text \<and>
   user_id (tasks s2 ! length (tasks s)) = uid \<and>
   priority (tasks s2 ! length (tasks s)) = prio \<and>
   created_at (tasks s2 ! length (tasks s)) = isoformat L now \<and>
   tasks s2 ! length (tasks s) \<in> set (get_user_tasks (tasks s2) uid None) \<and>
   tasks s2 ! length (tasks s) \<in>
     set (get_user_tasks (tasks s2) uid (Some (completed (tasks s2 ! length (tasks s)))))"
proof -
  let ?t = "\<lparr>task_id = int (length (tasks s)) + 1, task_text = text, user_id = uid,
             priority = prio, completed = False, created_at = isoformat L now,
             completed_at = None, scheduled_date = sdate, scheduled_time = stime\<rparr>"
  let ?s1 = "snd (add_task E L now text uid prio sdate stime s)"
  let ?k = "length (tasks s)"
  have t1: "tasks ?s1 = tasks s @ [?t]" by (simp add: add_task_eq new_task_def)
  have k1: "?k < length (tasks ?s1)" "tasks ?s1 ! ?k = ?t" using t1 by simp_all
  from run_keeps[OF assms k1(1)] k1(2)
  have k2: "?k < length (tasks s2)" "same_identity ?t (tasks s2 ! ?k)" by simp_all
  then have m: "tasks s2 ! ?k \<in> set (tasks s2)" by simp
  have u: "user_id (tasks s2 ! ?k) = uid" using k2(2) by (simp add: same_identity_def)
  have 1: "fst (add_task E L now text uid prio sdate stime s) = int ?k + 1"
    by (simp add: add_task_eq)
  have 2: "get_user_tasks (tasks ?s1) uid None = get_user_tasks (tasks s) uid None @ [?t]"
    and 3: "get_user_tasks (tasks ?s1) uid (Some False) =
            get_user_tasks (tasks s) uid (Some False) @ [?t]"
    using t1 by (simp_all add: get_user_tasks_def)
  have 4: "tasks s2 ! ?k \<in> set (get_user_tasks (tasks s2) uid None)"
    and 5: "tasks s2 ! ?k \<in> set (get_user_tasks (tasks s2) uid (Some (completed (tasks s2 ! ?k))))"
    using m u by (simp_all add: get_user_tasks_def)
  from 1 t1 2 3 4 5 k2 show ?thesis by (simp add: same_identity_def)
qed

text \<open>
  The theorem on a task created on the empty store. After a second creation for the
  same user, the completion of the first task and a run of the scheduler, the first task
  is still listed for its owner, no longer last and no longer among the uncompleted ones.
\<close>

theorem add_task_never_validates_witness:
  "fst ex_created = 1 \<and>
   get_user_tasks (tasks (snd ex_created)) 7 None =
     [ex_task 1 7 ''2024-01-20T15:00:30'' (Some ''20.01.2024'') (Some ''18:00'')] \<and>
   task_id (tasks (snd (run ex_env ex_lib ex_after_create (snd ex_created))) ! 0) = 1 \<and>
   task_text (tasks (snd (run ex_env ex_lib ex_after_create (snd ex_created))) ! 0) = ''call'' \<and>
   tasks (snd (run ex_env ex_lib ex_after_create (snd ex_created))) ! 0 \<in>
     set (get_user_tasks (tasks (snd (run ex_env ex_lib ex_after_create (snd ex_created)))) 7 None) \<and>
   map task_id
     (get_user_tasks (tasks (snd (run ex_env ex_lib ex_after_create (snd ex_created)))) 7 None) =
     [1, 2] \<and>
   map task_id
     (get_user_tasks (tasks (snd (run ex_env ex_lib ex_after_create (snd ex_created)))) 7
        (Some False)) = [2]"
proof -
  have r: "run ex_env ex_lib ex_after_create
             (snd (add_task ex_env ex_lib ex_now ''call'' 7 default_priority
                     (Some ''20.01.2024'') (Some ''18:00'') ex_start)) =
           (fst (run ex_env ex_lib ex_after_create (snd ex_created)),
            snd (run ex_env ex_lib ex_after_create (snd ex_created)))"
    by (simp add: ex_created_def)
  have e: "tasks ex_start = []" by (simp add: ex_start_def)
  have n: "isoformat ex_lib ex_now = ''2024-01-20T15:00:30''" by code_simp
  have l: "map task_id
     (get_user_tasks (tasks (snd (run ex_env ex_lib ex_after_create (snd ex_created)))) 7 None) =
     [1, 2]"
    "map task_id
     (get_user_tasks (tasks (snd (run ex_env ex_lib ex_after_create (snd ex_created)))) 7
        (Some False)) = [2]"
    by code_simp+
  show ?thesis
    using add_task_never_validates[OF r] l
    by (simp add: e n ex_created_def[symmetric] get_user_tasks_def ex_task_def)
qed

subsection \<open>A failed delivery ends the run (claim C4)\<close>

text \<open>
  Claim C4 says that a failed delivery for one task leaves the other tasks of the same
  run processed. The handler in the loop is \<open>except ValueError\<close>; it isolates a schedule
  that does not parse, but an exception of \<open>send_message\<close> leaves the loop. On a store
  with two due tasks, of the users 13 and 7, where messages to 13 raise
  \<open>TelegramError\<close>: the run ends with that exception, sends nothing and changes
  nothing, and three runs in a row never remind user 7. With every message delivered both
  tasks get their reminder, and when the first task's time does not parse the second still
  gets its reminder.
\<close>

theorem delivery_failure_aborts_tick_example:
  "is_due ex_lib ex_now (ex_two_due ! 0) \<and> is_due ex_lib ex_now (ex_two_due ! 1) \<and>
   send_reminders_sync (ex_env_blocked 13) ex_lib True ex_now (ex_store ex_two_due) =
     (Some TelegramError, [], ex_store ex_two_due) \<and>
   reminded (fst (run (ex_env_blocked 13) ex_lib
       [Tick ex_now, Tick (mk_datetime 2024 1 20 15 1 30), Tick (mk_datetime 2024 1 20 15 2 30)]
       (ex_store ex_two_due))) = [] \<and>
   fst (snd (send_reminders_sync ex_env ex_lib True ex_now (ex_store ex_two_due))) = [0, 1] \<and>
   fst (snd (send_reminders_sync ex_env ex_lib True ex_now (ex_store ex_bad_time))) = [1]"
  by code_simp

subsection \<open>Issued ids (claim C5)\<close>

text \<open>
  Claim C5. In every sequence of \<open>add_task\<close>, \<open>mark_task_done\<close> and scheduler
  calls on one store, the ids that \<open>add_task\<close> returns are strictly increasing, hence
  pairwise different, and each is greater than the number of tasks the store started with.
  No id is reassigned: the stored tasks keep their ids, in order, and the issued ids are
  the ids of the tasks appended. If the ids of the starting store are its positions
  counted from 1 (as in an empty store, or one filled by \<open>add_task\<close>), the same holds
  at the end and all stored ids are different.
\<close>

theorem issued_ids_strictly_increase:
  assumes "run E L ops s = (evs, s')"
  shows "sorted_wrt (<) (issued_ids evs) \<and>
         distinct (issued_ids evs) \<and>
         (\<forall>n\<in>set (issued_ids evs). int (length (tasks s)) < n) \<and>
         map task_id (tasks s') = map task_id (tasks s) @ issued_ids evs \<and>
         (ids_by_position (tasks s) \<longrightarrow>
            ids_by_position (tasks s') \<and> distinct (map task_id (tasks s')))"
proof -
  note r = run_issued_ids[OF assms]
  have 1: "sorted_wrt (<) (issued_ids evs)" using r by (simp add: sorted_issued)
  then have 2: "distinct (issued_ids evs)" by (simp add: strict_sorted_iff)
  have 3: "\<forall>n\<in>set (issued_ids evs). int (length (tasks s)) < n" using r by auto
  have 4: "map task_id (tasks s') = map task_id (tasks s) @ issued_ids evs" using r by simp
  have 5: "ids_by_position (tasks s')" if "ids_by_position (tasks s)"
  proof -
    have "map task_id (tasks s') =
        map (\<lambda>k. int k + 1) ([0..<length (tasks s)] @ [length (tasks s)..<length (tasks s')])"
      using that r by (simp add: ids_by_position_def)
    also have "[0..<length (tasks s)] @ [length (tasks s)..<length (tasks s')] = [0..<length (tasks s')]"
      using r by (simp add: upt_split)
    finally show ?thesis by (simp add: ids_by_position_def)
  qed
  have 6: "distinct (map task_id ts)" if "ids_by_position ts" for ts
    using that sorted_issued[of 0 "length ts"] by (simp add: ids_by_position_def strict_sorted_iff)
  from 1 2 3 4 5 6 show ?thesis by blast
qed

text \<open>
  The theorem on a run from the empty store with three creations, a completion and two
  scheduler runs in between.
\<close>

theorem issued_ids_strictly_increase_witness:
  "issued_ids (fst (run ex_env ex_lib ex_ops ex_start)) = [1, 2, 3] \<and>
   sorted_wrt (<) (issued_ids (fst (run ex_env ex_lib ex_ops ex_start))) \<and>
   map task_id (tasks (snd (run ex_env ex_lib ex_ops ex_start))) = [1, 2, 3] \<and>
   distinct (map task_id (tasks (snd (run ex_env ex_lib ex_ops ex_start))))"
proof -
  have r: "run ex_env ex_lib ex_ops ex_start =
             (fst (run ex_env ex_lib ex_ops ex_start), snd (run ex_env ex_lib ex_ops ex_start))"
    by simp
  have i: "ids_by_position (tasks ex_start)" by (simp add: ids_by_position_def ex_start_def)
  have v: "issued_ids (fst (run ex_env ex_lib ex_ops ex_start)) = [1, 2, 3]" by code_simp
  have e: "tasks ex_start = []" by (simp add: ex_start_def)
  show ?thesis using issued_ids_strictly_increase[OF r] i v e by simp
qed

subsection \<open>Today's tasks (claims C6 and C10)\<close>

lemma today_loop_filter:
  assumes "strptime_date L [] = None"
    and "\<forall>t\<in>set ts. user_id t = uid \<and> \<not> completed t \<longrightarrow> fromisoformat L (created_at t) \<noteq> None"
  shows "today_loop L today uid ts acc = Inr (acc @ filter (due_today L today uid) ts)"
  using assms(2)
proof (induction ts arbitrary: acc)
  case Nil
  then show ?case by simp
next
  case (Cons u us)
  then have ih: "\<And>acc. today_loop L today uid us acc = Inr (acc @ filter (due_today L today uid) us)"
    by simp
  show ?case
  proof (cases "user_id u = uid \<and> \<not> completed u")
    case False
    then have "\<not> due_today L today uid u" by (auto simp: due_today_def)
    with False show ?thesis by (auto simp: ih)
  next
    case True
    with Cons.prems obtain c where c: "fromisoformat L (created_at u) = Some c" by auto
    show ?thesis
    proof (cases "scheduled_date u")
      case None
      with True c have "due_today L today uid u = (date_of c = today)"
        by (simp add: due_today_def created_on_def scheduled_on_def)
      with True c None show ?thesis by (simp add: ih)
    next
      case (Some ds)
      with True c have "due_today L today uid u =
          (date_of c = today \<or> strptime_date L ds = Some today)"
        by (simp add: due_today_def created_on_def scheduled_on_def)
      with True c Some assms(1) show ?thesis
        by (cases "ds = []"; cases "strptime_date L ds") (simp_all add: ih)
    qed
  qed
qed

lemma today_loop_raises:
  assumes "t \<in> set ts" and "user_id t = uid" and "\<not> completed t"
    and "fromisoformat L (created_at t) = None"
  shows "today_loop L today uid ts acc = Inl ValueError"
  using assms(1)
proof (induction ts arbitrary: acc)
  case Nil
  then show ?case by simp
next
  case (Cons u us)
  show ?case
  proof (cases "u = t")
    case True
    with assms(2-4) show ?thesis by simp
  next
    case False
    with Cons.prems have "t \<in> set us" by simp
    then have "\<And>acc. today_loop L today uid us acc = Inl ValueError" by (rule Cons.IH)
    then show ?thesis by (simp split: option.splits)
  qed
qed

text \<open>
  Claim C6. When the \<open>created_at\<close> entries of the owner's uncompleted tasks are valid
  timestamps, \<open>get_today_tasks\<close> returns, in the order of the store, exactly the
  uncompleted tasks of the owner that were created today or are scheduled for today. A
  scheduled date that does not parse is not today and raises nothing; a completed task is
  never returned. (The empty string is no date: \<open>strptime\<close> rejects it.)
\<close>

theorem get_today_tasks_exact:
  assumes "strptime_date L [] = None"
    and "\<forall>t\<in>set ts. user_id t = uid \<and> \<not> completed t \<longrightarrow> fromisoformat L (created_at t) \<noteq> None"
  shows "get_today_tasks L now ts uid = Inr (filter (due_today L (date_of now) uid) ts)"
  using today_loop_filter[OF assms, of "date_of now" "[]"] by (simp add: get_today_tasks_def)

text \<open>
  The theorem on a store with a task created today, a task created yesterday and
  scheduled for today, a completed task created today, a task created yesterday with the
  date \<open>soon\<close>, a task of another user, and a task created today with the date
  \<open>soon\<close>: the first, the second and the last are returned.
\<close>

theorem get_today_tasks_exact_witness:
  "get_today_tasks ex_lib ex_now ex_today_tasks 7 =
     Inr [ex_today_tasks ! 0, ex_today_tasks ! 1, ex_today_tasks ! 5]"
proof -
  have h1: "strptime_date ex_lib [] = None" by code_simp
  have h2: "\<forall>t\<in>set ex_today_tasks. user_id t = 7 \<and> \<not> completed t \<longrightarrow>
              fromisoformat ex_lib (created_at t) \<noteq> None"
    by code_simp
  have f: "filter (due_today ex_lib (date_of ex_now) 7) ex_today_tasks =
             [ex_today_tasks ! 0, ex_today_tasks ! 1, ex_today_tasks ! 5]"
    by code_simp
  show ?thesis
    using get_today_tasks_exact[OF h1 h2, of ex_now] f by (simp only:)
qed

text \<open>
  Claim C10. \<open>get_today_tasks\<close> guards only the parse of \<open>scheduled_date\<close>: if an
  uncompleted task of the owner has a \<open>created_at\<close> entry that \<open>fromisoformat\<close>
  rejects, the call ends with \<open>ValueError\<close> and returns no list.
\<close>

theorem get_today_tasks_bad_created_at:
  assumes "t \<in> set ts" and "user_id t = uid" and "\<not> completed t"
    and "fromisoformat L (created_at t) = None"
  shows "get_today_tasks L now ts uid = Inl ValueError"
  using today_loop_raises[OF assms] by (simp add: get_today_tasks_def)

theorem get_today_tasks_bad_created_at_witness:
  "get_today_tasks ex_lib ex_now ex_bad_created 7 = Inl ValueError"
proof -
  have h1: "ex_task 2 7 ''yesterday'' None None \<in> set ex_bad_created"
    by (simp add: ex_bad_created_def)
  have h2: "user_id (ex_task 2 7 ''yesterday'' None None) = 7" by (simp add: ex_task_def)
  have h3: "\<not> completed (ex_task 2 7 ''yesterday'' None None)" by (simp add: ex_task_def)
  have h4: "fromisoformat ex_lib (created_at (ex_task 2 7 ''yesterday'' None None)) = None"
    by code_simp
  show ?thesis by (rule get_today_tasks_bad_created_at[OF h1 h2 h3 h4])
qed

subsection \<open>Completing a task that is not there (claim C7)\<close>

text \<open>
  Claim C7. When no stored task has both the given id and the given owner (the id is
  unknown, or it belongs to other owners only), \<open>mark_task_done\<close> returns \<open>False\<close>
  and the state is unchanged: the tasks, the file and the log.
\<close>

theorem mark_task_done_no_match:
  assumes "\<forall>t\<in>set (tasks s). task_id t = tid \<longrightarrow> user_id t \<noteq> uid"
  shows "mark_task_done E L now uid tid s = (False, s)"
proof -
  have "mark_loop (isoformat L now) uid tid (tasks s) = None"
    using assms by (auto simp: mark_loop_None)
  then show ?thesis by (simp add: mark_task_done_def)
qed

text \<open>
  The theorem on the store with the one task 1 of user 7: for user 8 and the id 1, and
  for user 7 and the id 5.
\<close>

theorem mark_task_done_no_match_witness:
  "mark_task_done ex_env ex_lib ex_now 8 1 (ex_store ex_one_task) =
     (False, ex_store ex_one_task) \<and>
   mark_task_done ex_env ex_lib ex_now 7 5 (ex_store ex_one_task) =
     (False, ex_store ex_one_task)"
proof -
  have h1: "\<forall>t\<in>set (tasks (ex_store ex_one_task)). task_id t = 1 \<longrightarrow> user_id t \<noteq> 8"
    by (simp add: ex_store_def ex_one_task_def ex_task_def)
  have h2: "\<forall>t\<in>set (tasks (ex_store ex_one_task)). task_id t = 5 \<longrightarrow> user_id t \<noteq> 7"
    by (simp add: ex_store_def ex_one_task_def ex_task_def)
  show ?thesis
    using mark_task_done_no_match[OF h1] mark_task_done_no_match[OF h2] by simp
qed

subsection \<open>A failed save (claim C8)\<close>




end
